theory Spec2Isabelle
  imports Complex_Main "HOL-Library.Multiset" "HOL-Library.Sublist" "HOL-Library.Log_Nat"
    "HOL-Library.Monad_Syntax"
begin

section \<open>Strings and tokens\<close>

text \<open>
  A JavaScript string is a sequence of UTF-16 code units; \<open>length\<close>, \<open>slice\<close>, indexing
  and regular expressions without the \<open>u\<close> flag all work on code units.  A code unit is
  modelled as a natural number and a string as a list of them.  \<open>S\<close> turns an ASCII literal
  into such a string.
\<close>

type_synonym jschar = nat
type_synonym jsstring = "nat list"

definition S :: "string \<Rightarrow> jsstring" where
  "S s = map of_char s"

text \<open>\<open>type TokenType\<close> and \<open>interface Token\<close> of the fuzzer service.\<close>

datatype TokenType = Ident | Number | Punct | Whitespace | Comment | StringLit | Unknown

record Token =
  tok_type :: TokenType
  tok_value :: jsstring
  tok_index :: int

text \<open>The serializer at the end of \<open>fuzzShader\<close>: \<open>tokens.map(t => t.value).join('')\<close>.\<close>

definition serialize :: "Token list \<Rightarrow> jsstring" where
  "serialize ts = concat (map tok_value ts)"

section \<open>Lexer\<close>

subsection \<open>Character classes of the regular expressions\<close>

definition is_digit :: "jschar \<Rightarrow> bool" where
  "is_digit c = (48 \<le> c \<and> c \<le> 57)"

definition is_hex :: "jschar \<Rightarrow> bool" where
  "is_hex c = (is_digit c \<or> (97 \<le> c \<and> c \<le> 102) \<or> (65 \<le> c \<and> c \<le> 70))"

definition is_ident_start :: "jschar \<Rightarrow> bool" where
  "is_ident_start c = ((97 \<le> c \<and> c \<le> 122) \<or> (65 \<le> c \<and> c \<le> 90) \<or> c = 95)"

definition is_word :: "jschar \<Rightarrow> bool" where
  "is_word c = (is_ident_start c \<or> is_digit c)"

text \<open>Line terminators: the characters the regular expression \<open>.\<close> does not match.\<close>

definition is_line_terminator :: "jschar \<Rightarrow> bool" where
  "is_line_terminator c = (c = 10 \<or> c = 13 \<or> c = 8232 \<or> c = 8233)"

text \<open>\<open>\s\<close>: the white space and line terminator code points of ECMAScript.\<close>

definition is_space :: "jschar \<Rightarrow> bool" where
  "is_space c = (c = 9 \<or> c = 10 \<or> c = 11 \<or> c = 12 \<or> c = 13 \<or> c = 32 \<or> c = 160
     \<or> c = 5760 \<or> (8192 \<le> c \<and> c \<le> 8202) \<or> c = 8232 \<or> c = 8233 \<or> c = 8239
     \<or> c = 8287 \<or> c = 12288 \<or> c = 65279)"

subsection \<open>The six patterns\<close>

text \<open>
  Each pattern is anchored at the start of the rest of the input and yields the matched
  text \<open>match[0]\<close>, or \<open>None\<close> when the regular expression does not match.
\<close>

text \<open>\<open>/^\/\/.*/\<close>\<close>

definition match_comment :: "jsstring \<Rightarrow> jsstring option" where
  "match_comment s =
     (if take 2 s = S ''//''
      then Some (S ''//'' @ takeWhile (\<lambda>c. \<not> is_line_terminator c) (drop 2 s))
      else None)"

text \<open>\<open>/^\s+/\<close>\<close>

definition match_whitespace :: "jsstring \<Rightarrow> jsstring option" where
  "match_whitespace s =
     (if takeWhile is_space s \<noteq> [] then Some (takeWhile is_space s) else None)"

text \<open>
  The optional exponent \<open>(?:[eE][+-]?\d+)?\<close> at the rest \<open>r\<close>: the text it matches, empty
  when the group does not match.  A sign with no digit after it cannot be given back to
  \<open>\d+\<close>, so the group then matches nothing.
\<close>

definition opt_exponent :: "jsstring \<Rightarrow> jsstring" where
  "opt_exponent r =
     (if take 1 r = S ''e'' \<or> take 1 r = S ''E'' then
        (let sg = (if take 1 (drop 1 r) = S ''+'' \<or> take 1 (drop 1 r) = S ''-''
                   then take 1 (drop 1 r) else []);
             ds = takeWhile is_digit (drop (1 + length sg) r)
         in if ds \<noteq> [] then take 1 r @ sg @ ds else [])
      else [])"

text \<open>
  \<open>/^(?:0x[0-9a-fA-F]+|\d+\.\d+(?:[eE][+-]?\d+)?|\d+\.(?![eE\d])|\.\d+(?:[eE][+-]?\d+)?|\d+u?)/\<close>:
  the alternatives are tried in this order and the first that matches decides.
\<close>

definition match_number :: "jsstring \<Rightarrow> jsstring option" where
  "match_number s =
     (let ds = takeWhile is_digit s;
          r = dropWhile is_digit s;
          fs = takeWhile is_digit (drop 1 r);
          ls = takeWhile is_digit (drop 1 s)
      in if take 2 s = S ''0x'' \<and> takeWhile is_hex (drop 2 s) \<noteq> []
           then Some (S ''0x'' @ takeWhile is_hex (drop 2 s))
         else if ds \<noteq> [] \<and> take 1 r = S ''.'' \<and> fs \<noteq> []
           then Some (ds @ S ''.'' @ fs @ opt_exponent (dropWhile is_digit (drop 1 r)))
         else if ds \<noteq> [] \<and> take 1 r = S ''.''
                 \<and> \<not> (take 1 (drop 1 r) = S ''e'' \<or> take 1 (drop 1 r) = S ''E''
                        \<or> fs \<noteq> [])
           then Some (ds @ S ''.'')
         else if take 1 s = S ''.'' \<and> ls \<noteq> []
           then Some (S ''.'' @ ls @ opt_exponent (dropWhile is_digit (drop 1 s)))
         else if ds \<noteq> []
           then Some (ds @ (if take 1 r = S ''u'' then S ''u'' else []))
         else None)"

text \<open>\<open>/^[a-zA-Z_]\w*/\<close>\<close>

definition match_ident :: "jsstring \<Rightarrow> jsstring option" where
  "match_ident s =
     (case s of
        [] \<Rightarrow> None
      | c # r \<Rightarrow> if is_ident_start c then Some (c # takeWhile is_word r) else None)"

text \<open>\<open>/^(?:->|==|!=|<=|>=|&&|\|\|)/\<close>\<close>

definition multi_puncts :: "jsstring list" where
  "multi_puncts = [S ''->'', S ''=='', S ''!='', S ''<='', S ''>='', S ''&&'', S ''||'']"

definition match_multi_punct :: "jsstring \<Rightarrow> jsstring option" where
  "match_multi_punct s = find (\<lambda>p. take 2 s = p) multi_puncts"

text \<open>\<open>/^[{}()\[\],;:.+*\/=\-><]/\<close>\<close>

definition single_puncts :: "jschar list" where
  "single_puncts = S ''{}()[],;:.+*/=-><''"

definition match_single_punct :: "jsstring \<Rightarrow> jsstring option" where
  "match_single_punct s =
     (case s of
        [] \<Rightarrow> None
      | c # r \<Rightarrow> if c \<in> set single_puncts then Some [c] else None)"

text \<open>The table \<open>patterns\<close>, ordered by priority.\<close>

definition patterns :: "(TokenType \<times> (jsstring \<Rightarrow> jsstring option)) list" where
  "patterns =
     [(Comment, match_comment),
      (Whitespace, match_whitespace),
      (Number, match_number),
      (Ident, match_ident),
      (Punct, match_multi_punct),
      (Punct, match_single_punct)]"

text \<open>The inner \<open>for (const p of patterns)\<close> loop: the first pattern that matches.\<close>

fun first_match ::
  "(TokenType \<times> (jsstring \<Rightarrow> jsstring option)) list \<Rightarrow> jsstring \<Rightarrow> (TokenType \<times> jsstring) option"
where
  "first_match [] sub = None"
| "first_match ((ty, rx) # ps) sub =
     (case rx sub of Some m \<Rightarrow> Some (ty, m) | None \<Rightarrow> first_match ps sub)"

subsection \<open>Every match is a non-empty prefix\<close>

definition nonempty_prefix :: "jsstring \<Rightarrow> jsstring \<Rightarrow> bool" where
  "nonempty_prefix m s = (m \<noteq> [] \<and> prefix m s)"

lemma prefix_appendI:
  "prefix p s \<Longrightarrow> prefix q (drop (length p) s) \<Longrightarrow> prefix (p @ q) s"
  by (metis append_eq_conv_conj prefix_def same_prefix_prefix)

lemma prefix_take_eq: "take n s = p \<Longrightarrow> prefix p s"
  by (metis take_is_prefix)

lemma drop_length_takeWhile: "drop (length (takeWhile P s)) s = dropWhile P s"
  by (induction s) auto

lemma length_S [simp]: "length (S s) = length s"
  by (simp add: S_def)

lemma match_comment_prefix: "match_comment s = Some m \<Longrightarrow> nonempty_prefix m s"
proof -
  assume a: "match_comment s = Some m"
  let ?r = "takeWhile (\<lambda>c. \<not> is_line_terminator c) (drop 2 s)"
  from a have h: "take 2 s = S ''//''" and m: "m = S ''//'' @ ?r"
    by (auto simp: match_comment_def split: if_splits)
  have "prefix (S ''//'') s"
    using h by (rule prefix_take_eq)
  then have "prefix (S ''//'' @ ?r) s"
    by (rule prefix_appendI) (simp add: takeWhile_is_prefix numeral_2_eq_2)
  with m show ?thesis by (simp add: nonempty_prefix_def S_def)
qed

lemma match_whitespace_prefix: "match_whitespace s = Some m \<Longrightarrow> nonempty_prefix m s"
  by (auto simp: match_whitespace_def nonempty_prefix_def takeWhile_is_prefix split: if_splits)

lemma prefix_opt_exponent: "prefix (opt_exponent r) r"
proof (cases "opt_exponent r = []")
  case True
  then show ?thesis by simp
next
  case False
  define sg where "sg = (if take 1 (drop 1 r) = S ''+'' \<or> take 1 (drop 1 r) = S ''-''
                   then take 1 (drop 1 r) else [])"
  define ds where "ds = takeWhile is_digit (drop (1 + length sg) r)"
  from False have e: "opt_exponent r = take 1 r @ sg @ ds" and ne: "take 1 r \<noteq> []"
    by (auto simp: opt_exponent_def Let_def sg_def ds_def S_def split: if_splits)
  from ne have l1: "length (take 1 r) = 1" by (cases r) auto
  have sgp: "prefix sg (drop 1 r)"
    by (simp add: sg_def take_is_prefix)
  have a: "prefix (take 1 r @ sg) r"
    by (rule prefix_appendI) (simp_all only: l1 sgp take_is_prefix)
  have len: "length (take 1 r @ sg) = 1 + length sg"
    using l1 by (simp only: length_append)
  have "prefix ds (drop (length (take 1 r @ sg)) r)"
    unfolding len ds_def by (rule takeWhile_is_prefix)
  with a have "prefix ((take 1 r @ sg) @ ds) r"
    by (rule prefix_appendI)
  with e show ?thesis by simp
qed

lemma match_number_prefix: "match_number s = Some m \<Longrightarrow> nonempty_prefix m s"
proof -
  assume a: "match_number s = Some m"
  define ds where "ds = takeWhile is_digit s"
  define r where "r = dropWhile is_digit s"
  define fs where "fs = takeWhile is_digit (drop 1 r)"
  define ls where "ls = takeWhile is_digit (drop 1 s)"
  have pds: "prefix ds s" by (simp add: ds_def takeWhile_is_prefix)
  have dr: "drop (length ds) s = r" by (simp add: ds_def r_def drop_length_takeWhile)
  have dot: "prefix (S ''.'') x" if "take 1 x = S ''.''" for x
    using that by (rule prefix_take_eq)
  from a consider
      (hex) "take 2 s = S ''0x''" "m = S ''0x'' @ takeWhile is_hex (drop 2 s)"
    | (float) "ds \<noteq> []" "take 1 r = S ''.''"
        "m = ds @ S ''.'' @ fs @ opt_exponent (dropWhile is_digit (drop 1 r))"
    | (trail) "ds \<noteq> []" "take 1 r = S ''.''" "m = ds @ S ''.''"
    | (lead) "take 1 s = S ''.''"
        "m = S ''.'' @ ls @ opt_exponent (dropWhile is_digit (drop 1 s))"
    | (intg) "ds \<noteq> []" "m = ds @ (if take 1 r = S ''u'' then S ''u'' else [])"
    unfolding match_number_def Let_def ds_def [symmetric] r_def [symmetric]
      fs_def [symmetric] ls_def [symmetric]
    by (auto split: if_splits)
  then show ?thesis
  proof cases
    case hex
    have "prefix (S ''0x'') s" using hex(1) by (rule prefix_take_eq)
    then have "prefix (S ''0x'' @ takeWhile is_hex (drop 2 s)) s"
      by (rule prefix_appendI) (simp add: takeWhile_is_prefix numeral_2_eq_2)
    with hex show ?thesis by (simp add: nonempty_prefix_def S_def)
  next
    case float
    have t: "prefix (fs @ opt_exponent (dropWhile is_digit (drop 1 r))) (drop 1 r)"
      by (rule prefix_appendI)
        (simp_all add: fs_def takeWhile_is_prefix drop_length_takeWhile prefix_opt_exponent
          del: drop_drop)
    have "prefix (S ''.'' @ fs @ opt_exponent (dropWhile is_digit (drop 1 r))) r"
      by (rule prefix_appendI [OF dot [OF float(2)]]) (use t in simp)
    then have "prefix (ds @ S ''.'' @ fs @ opt_exponent (dropWhile is_digit (drop 1 r))) s"
      by (intro prefix_appendI [OF pds]) (simp add: dr)
    with float show ?thesis by (simp add: nonempty_prefix_def)
  next
    case trail
    have "prefix (ds @ S ''.'') s"
      by (rule prefix_appendI [OF pds]) (simp add: dr dot [OF trail(2)])
    with trail show ?thesis by (simp add: nonempty_prefix_def)
  next
    case lead
    have t: "prefix (ls @ opt_exponent (dropWhile is_digit (drop 1 s))) (drop 1 s)"
      by (rule prefix_appendI)
        (simp_all add: ls_def takeWhile_is_prefix drop_length_takeWhile prefix_opt_exponent
          del: drop_drop)
    have "prefix (S ''.'' @ ls @ opt_exponent (dropWhile is_digit (drop 1 s))) s"
      by (rule prefix_appendI [OF dot [OF lead(1)]]) (use t in simp)
    with lead show ?thesis by (simp add: nonempty_prefix_def S_def)
  next
    case intg
    have "prefix (if take 1 r = S ''u'' then S ''u'' else []) r"
      by (auto intro: prefix_take_eq)
    then have "prefix (ds @ (if take 1 r = S ''u'' then S ''u'' else [])) s"
      by (intro prefix_appendI [OF pds]) (simp add: dr)
    with intg show ?thesis by (simp add: nonempty_prefix_def)
  qed
qed

lemma match_ident_prefix: "match_ident s = Some m \<Longrightarrow> nonempty_prefix m s"
  by (cases s) (auto simp: match_ident_def nonempty_prefix_def takeWhile_is_prefix split: if_splits)

lemma match_multi_punct_prefix: "match_multi_punct s = Some m \<Longrightarrow> nonempty_prefix m s"
proof -
  assume "match_multi_punct s = Some m"
  then have "m \<in> set multi_puncts" and "take 2 s = m"
    by (auto simp: match_multi_punct_def find_Some_iff)
  then have "m \<noteq> []" and "prefix m s"
    by (auto simp: multi_puncts_def S_def intro: prefix_take_eq)
  then show ?thesis
    by (simp add: nonempty_prefix_def)
qed

lemma match_single_punct_prefix: "match_single_punct s = Some m \<Longrightarrow> nonempty_prefix m s"
  by (cases s) (auto simp: match_single_punct_def nonempty_prefix_def split: if_splits)

lemma first_match_patterns_prefix:
  "first_match patterns sub = Some (ty, m) \<Longrightarrow> nonempty_prefix m sub"
  by (auto simp: patterns_def split: option.splits
      dest: match_comment_prefix match_whitespace_prefix match_number_prefix
        match_ident_prefix match_multi_punct_prefix match_single_punct_prefix)

subsection \<open>The main loop of \<open>tokenize\<close>\<close>

text \<open>
  \<open>while (i < code.length)\<close>: the first matching pattern yields a token and \<open>i\<close> advances
  by the length of the match; when no pattern matches, the character \<open>code[i]\<close> becomes an
  \<open>unknown\<close> token.  The loop ends because every match is non-empty.
\<close>

function tokenize_from :: "jsstring \<Rightarrow> nat \<Rightarrow> Token list" where
  "tokenize_from code i =
     (if i < length code then
        (case first_match patterns (drop i code) of
           Some (ty, m) \<Rightarrow>
             \<lparr>tok_type = ty, tok_value = m, tok_index = int i\<rparr>
               # tokenize_from code (i + length m)
         | None \<Rightarrow>
             \<lparr>tok_type = Unknown, tok_value = [code ! i], tok_index = int i\<rparr>
               # tokenize_from code (i + 1))
      else [])"
  by pat_completeness auto
termination
proof (relation "measure (\<lambda>(code, i). length code - i)")
  fix code :: jsstring and i :: nat and x2 ty m
  assume "i < length code" and "first_match patterns (drop i code) = Some x2"
    and "(ty, m) = x2"
  then have "nonempty_prefix m (drop i code)"
    using first_match_patterns_prefix by metis
  then have "0 < length m" by (simp add: nonempty_prefix_def)
  with \<open>i < length code\<close> have "length code - (i + length m) < length code - i"
    by (intro diff_less_mono2) simp_all
  then show "((code, i + length m), (code, i)) \<in> measure (\<lambda>(code, i). length code - i)"
    by simp
qed auto

declare tokenize_from.simps [simp del]

definition tokenize :: "jsstring \<Rightarrow> Token list" where
  "tokenize code = tokenize_from code 0"

section \<open>Numbers\<close>

text \<open>
  A JavaScript number is an IEEE 754 binary64 value: not-a-number, an infinity, or a
  finite value, kept here as the rational it denotes (the two zeros are one value; no
  operation below tells them apart but the sign printed by \<open>toFixed\<close> for a negative
  zero).  Arithmetic computes the exact rational result and rounds it to the nearest
  binary64 value, ties to even.
\<close>

datatype jsnum = NaN | PosInf | NegInf | Fin rat

definition round_half_even :: "rat \<Rightarrow> int" where
  "round_half_even y =
     (let f = \<lfloor>y\<rfloor>; d = y - of_int f
      in if d < 1 / 2 then f else if 1 / 2 < d then f + 1 else if even f then f else f + 1)"

text \<open>For \<open>0 < q\<close>, the exponent \<open>e\<close> with \<open>2 ^ e \<le> q < 2 ^ (e + 1)\<close>.\<close>

definition binade :: "rat \<Rightarrow> int" where
  "binade q =
     (let (a, b) = quotient_of q;
          e0 = int (floorlog 2 (nat a)) - int (floorlog 2 (nat b))
      in if 2 powi e0 \<le> q then e0 else e0 - 1)"

text \<open>
  Rounding to binary64: 53 significant bits, exponents from \<open>-1022\<close> (subnormal numbers
  below) to \<open>1023\<close>, overflow to an infinity.
\<close>

definition fl :: "rat \<Rightarrow> jsnum" where
  "fl q =
     (if q = 0 then Fin 0
      else
        (let e = max (binade \<bar>q\<bar>) (- 1022);
             ulp = 2 powi (e - 52);
             m = of_int (round_half_even (\<bar>q\<bar> / ulp)) * ulp
         in if 2 powi 1024 \<le> m then (if 0 < q then PosInf else NegInf)
            else Fin (sgn q * m)))"

definition js_neg :: "jsnum \<Rightarrow> jsnum" where
  "js_neg v = (case v of NaN \<Rightarrow> NaN | PosInf \<Rightarrow> NegInf | NegInf \<Rightarrow> PosInf | Fin x \<Rightarrow> Fin (- x))"

text \<open>\<open>Math.abs\<close>, \<open>Math.floor\<close>, \<open>isNaN\<close>\<close>

definition math_abs :: "jsnum \<Rightarrow> jsnum" where
  "math_abs v = (case v of NaN \<Rightarrow> NaN | PosInf \<Rightarrow> PosInf | NegInf \<Rightarrow> PosInf | Fin x \<Rightarrow> Fin \<bar>x\<bar>)"

definition math_floor :: "jsnum \<Rightarrow> jsnum" where
  "math_floor v = (case v of Fin x \<Rightarrow> Fin (of_int \<lfloor>x\<rfloor>) | _ \<Rightarrow> v)"

definition isNaN :: "jsnum \<Rightarrow> bool" where
  "isNaN v = (v = NaN)"

text \<open>The operators \<open>+\<close>, \<open>-\<close>, \<open>*\<close> and \<open><\<close> on numbers.\<close>

fun js_add :: "jsnum \<Rightarrow> jsnum \<Rightarrow> jsnum" where
  "js_add NaN _ = NaN"
| "js_add _ NaN = NaN"
| "js_add PosInf NegInf = NaN"
| "js_add NegInf PosInf = NaN"
| "js_add PosInf _ = PosInf"
| "js_add _ PosInf = PosInf"
| "js_add NegInf _ = NegInf"
| "js_add _ NegInf = NegInf"
| "js_add (Fin a) (Fin b) = fl (a + b)"

definition js_sub :: "jsnum \<Rightarrow> jsnum \<Rightarrow> jsnum" where
  "js_sub a b = js_add a (js_neg b)"

definition signed_inf :: "bool \<Rightarrow> jsnum" where
  "signed_inf positive = (if positive then PosInf else NegInf)"

fun js_mul :: "jsnum \<Rightarrow> jsnum \<Rightarrow> jsnum" where
  "js_mul NaN _ = NaN"
| "js_mul _ NaN = NaN"
| "js_mul (Fin a) (Fin b) = fl (a * b)"
| "js_mul (Fin a) PosInf = (if a = 0 then NaN else signed_inf (0 < a))"
| "js_mul (Fin a) NegInf = (if a = 0 then NaN else signed_inf (a < 0))"
| "js_mul PosInf (Fin b) = (if b = 0 then NaN else signed_inf (0 < b))"
| "js_mul NegInf (Fin b) = (if b = 0 then NaN else signed_inf (b < 0))"
| "js_mul PosInf PosInf = PosInf"
| "js_mul NegInf NegInf = PosInf"
| "js_mul PosInf NegInf = NegInf"
| "js_mul NegInf PosInf = NegInf"

fun js_lt :: "jsnum \<Rightarrow> jsnum \<Rightarrow> bool" where
  "js_lt NaN _ = False"
| "js_lt _ NaN = False"
| "js_lt (Fin a) (Fin b) = (a < b)"
| "js_lt PosInf _ = False"
| "js_lt _ PosInf = True"
| "js_lt _ NegInf = False"
| "js_lt NegInf _ = True"

text \<open>A numeric literal of the source, such as \<open>0.15\<close>, denotes the nearest binary64 value.\<close>

definition lit :: "rat \<Rightarrow> jsnum" where
  "lit q = fl q"

subsection \<open>Numbers to text\<close>

text \<open>The decimal digits of a natural number.\<close>

fun digits_of :: "nat \<Rightarrow> jsstring" where
  "digits_of n = (if n < 10 then [48 + n] else digits_of (n div 10) @ [48 + n mod 10])"

declare digits_of.simps [simp del]

text \<open>For \<open>0 < q\<close>, the exponent \<open>d\<close> with \<open>10 ^ d \<le> q < 10 ^ (d + 1)\<close>.\<close>

definition decade :: "rat \<Rightarrow> int" where
  "decade q =
     (let (a, b) = quotient_of q;
          d0 = int (floorlog 10 (nat a)) - int (floorlog 10 (nat b))
      in if 10 powi d0 \<le> q then d0 else d0 - 1)"

text \<open>
  \<open>Number::toString\<close> chooses integers \<open>n\<close>, \<open>k\<close> and \<open>s\<close> with \<open>k\<close> digits in \<open>s\<close>, such
  that \<open>s * 10 ^ (n - k)\<close> reads back as the number, and \<open>k\<close> as small as possible; among
  several \<open>s\<close> the one closest to the number.  \<open>candidates x k\<close> lists the pairs \<open>(s, n)\<close>
  for a given \<open>k\<close>, closest first; seventeen digits always suffice for a binary64 value.
\<close>

definition candidates :: "rat \<Rightarrow> nat \<Rightarrow> (nat \<times> int) list" where
  "candidates x k =
     (let n0 = decade x + 1;
          cs = concat (map (\<lambda>n.
                 (let p = 10 powi (n - int k); s0 = nat \<lfloor>x / p\<rfloor>
                  in map (\<lambda>s. (s, n))
                       (filter (\<lambda>s. 10 ^ (k - 1) \<le> s \<and> s < 10 ^ k \<and> fl (of_nat s * p) = Fin x)
                          [s0, s0 + 1])))
               [n0, n0 + 1])
      in sort_key (\<lambda>(s, n). \<bar>of_nat s * 10 powi (n - int k) - x\<bar>) cs)"

definition shortest :: "rat \<Rightarrow> nat \<times> int" where
  "shortest x =
     (case concat (map (candidates x) [1..<18]) of
        c # _ \<Rightarrow> c
      | [] \<Rightarrow> (nat (round_half_even (x / 10 powi (decade x + 1 - 17))), decade x + 1))"

definition toString_pos :: "rat \<Rightarrow> jsstring" where
  "toString_pos x =
     (let (s, n) = shortest x;
          ds = digits_of s;
          k = int (length ds);
          e = n - 1
      in if k \<le> n \<and> n \<le> 21 then ds @ replicate (nat (n - k)) 48
         else if 0 < n \<and> n \<le> 21 then take (nat n) ds @ S ''.'' @ drop (nat n) ds
         else if - 6 < n \<and> n \<le> 0 then S ''0.'' @ replicate (nat (- n)) 48 @ ds
         else (if k = 1 then ds else take 1 ds @ S ''.'' @ drop 1 ds)
              @ S ''e'' @ (if e < 0 then S ''-'' else S ''+'') @ digits_of (nat \<bar>e\<bar>))"

text \<open>\<open>String(v)\<close>, as a template literal applies it to a number.\<close>

definition toString :: "jsnum \<Rightarrow> jsstring" where
  "toString v =
     (case v of
        NaN \<Rightarrow> S ''NaN''
      | PosInf \<Rightarrow> S ''Infinity''
      | NegInf \<Rightarrow> S ''-Infinity''
      | Fin x \<Rightarrow>
          if x = 0 then S ''0''
          else if x < 0 then S ''-'' @ toString_pos (- x)
          else toString_pos x)"

text \<open>
  \<open>Number.prototype.toFixed(f)\<close>: a value that is not finite, or of magnitude \<open>10 ^ 21\<close> or
  more, is printed by \<open>toString\<close>; otherwise the integer \<open>n\<close> nearest to the magnitude
  times \<open>10 ^ f\<close> (the larger of two) is printed with \<open>f\<close> digits after the point.
\<close>

definition toFixed :: "nat \<Rightarrow> jsnum \<Rightarrow> jsstring" where
  "toFixed f v =
     (case v of
        Fin x \<Rightarrow>
          if 10 ^ 21 \<le> \<bar>x\<bar> then toString v
          else
            (let n = nat \<lfloor>\<bar>x\<bar> * 10 ^ f + 1 / 2\<rfloor>;
                 m = digits_of n;
                 m' = (if length m \<le> f then replicate (f + 1 - length m) 48 @ m else m);
                 body = (if f \<noteq> 0
                         then take (length m' - f) m' @ S ''.'' @ drop (length m' - f) m'
                         else m')
             in (if x < 0 then S ''-'' else []) @ body)
      | _ \<Rightarrow> toString v)"

subsection \<open>Text to numbers\<close>

definition digits_val :: "jsstring \<Rightarrow> nat" where
  "digits_val ds = foldl (\<lambda>a c. 10 * a + (c - 48)) 0 ds"

text \<open>The value of an exponent part as \<open>opt_exponent\<close> matched it (\<open>0\<close> when it is empty).\<close>

definition exponent_val :: "jsstring \<Rightarrow> int" where
  "exponent_val ex =
     (if take 1 (drop 1 ex) = S ''-'' then - int (digits_val (drop 2 ex))
      else if take 1 (drop 1 ex) = S ''+'' then int (digits_val (drop 2 ex))
      else int (digits_val (drop 1 ex)))"

text \<open>
  \<open>parseFloat\<close>: leading white space is dropped, then the longest prefix that is a decimal
  literal (an optional sign, then \<open>Infinity\<close> or digits with an optional fraction and
  exponent) is read; with no such prefix the result is \<open>NaN\<close>.
\<close>

definition parseFloat :: "jsstring \<Rightarrow> jsnum" where
  "parseFloat str =
     (let s0 = dropWhile is_space str;
          neg = (take 1 s0 = S ''-'');
          s1 = (if take 1 s0 = S ''-'' \<or> take 1 s0 = S ''+'' then drop 1 s0 else s0);
          ip = takeWhile is_digit s1;
          r1 = dropWhile is_digit s1;
          fp = (if take 1 r1 = S ''.'' then takeWhile is_digit (drop 1 r1) else []);
          r2 = (if take 1 r1 = S ''.'' then dropWhile is_digit (drop 1 r1) else r1);
          ev = exponent_val (opt_exponent r2)
      in if take 8 s1 = S ''Infinity'' then (if neg then NegInf else PosInf)
         else if ip = [] \<and> fp = [] then NaN
         else
           (let v = fl (of_nat (digits_val (ip @ fp)) * 10 powi (ev - int (length fp)))
            in if neg then js_neg v else v))"

section \<open>The random source\<close>

text \<open>
  \<open>Math.random()\<close> reads the process-wide random source.  The source is modelled as the
  sequence of the values it will return, and every function that draws from it takes the
  sequence and returns what is left of it.  ECMAScript promises a number that is at
  least \<open>0\<close> and less than \<open>1\<close>; the largest binary64 value below \<open>1\<close> is \<open>1 - 2 ^ -53\<close>.
\<close>

type_synonym rng = "nat \<Rightarrow> rat"

definition random :: "rng \<Rightarrow> jsnum \<times> rng" where
  "random g = (Fin (g 0), \<lambda>n. g (Suc n))"

definition rng_ok :: "rng \<Rightarrow> bool" where
  "rng_ok g = (\<forall>n. 0 \<le> g n \<and> g n \<le> 1 - 1 / 2 ^ 53)"

text \<open>\<open>randFloat(min, max)\<close>\<close>

definition randFloat :: "jsnum \<Rightarrow> jsnum \<Rightarrow> rng \<Rightarrow> jsnum \<times> rng" where
  "randFloat lo hi g =
     (let (r, g1) = random g in (js_add lo (js_mul r (js_sub hi lo)), g1))"

text \<open>
  Reading an array at a number: \<open>arr[v]\<close> is an element when \<open>v\<close> is an index of the array,
  and \<open>undefined\<close> (\<open>None\<close>) otherwise.
\<close>

definition elem_at :: "'a list \<Rightarrow> jsnum \<Rightarrow> 'a option" where
  "elem_at arr v =
     (case v of
        Fin x \<Rightarrow>
          if x = of_int \<lfloor>x\<rfloor> \<and> 0 \<le> x \<and> x < of_nat (length arr)
          then Some (arr ! nat \<lfloor>x\<rfloor>) else None
      | _ \<Rightarrow> None)"

text \<open>\<open>getRandomItem(arr)\<close>: \<open>arr[Math.floor(Math.random() * arr.length)]\<close>\<close>

definition getRandomItem :: "'a list \<Rightarrow> rng \<Rightarrow> 'a option \<times> rng" where
  "getRandomItem arr g =
     (let (r, g1) = random g
      in (elem_at arr (math_floor (js_mul r (Fin (of_nat (length arr))))), g1))"

text \<open>
  Outcomes.  A function of the model that reads \<open>tokens[i].value\<close> or selects from an
  array returns an option: \<open>None\<close> stands for an evaluation that leaves the model, either
  because a property of \<open>undefined\<close> is read (JavaScript throws a \<open>TypeError\<close>) or because
  an array read gave \<open>undefined\<close> where the program goes on to use it as a string.
\<close>

text \<open>\<open>shuffleString\<close>: the Fisher-Yates loop \<open>for (let i = arr.length - 1; i > 0; i--)\<close>.\<close>

definition index_of :: "'a list \<Rightarrow> jsnum \<Rightarrow> nat option" where
  "index_of arr v =
     (case v of
        Fin x \<Rightarrow>
          if x = of_int \<lfloor>x\<rfloor> \<and> 0 \<le> x \<and> x < of_nat (length arr)
          then Some (nat \<lfloor>x\<rfloor>) else None
      | _ \<Rightarrow> None)"

fun shuffle_loop :: "jsstring \<Rightarrow> nat \<Rightarrow> rng \<Rightarrow> (jsstring \<times> rng) option" where
  "shuffle_loop arr i g =
     (if 0 < i then
        (let (r, g1) = random g
         in case index_of arr (math_floor (js_mul r (Fin (of_nat (i + 1))))) of
              None \<Rightarrow> None
            | Some j \<Rightarrow> shuffle_loop (arr[i := arr ! j, j := arr ! i]) (i - 1) g1)
      else Some (arr, g))"

declare shuffle_loop.simps [simp del]

definition shuffleString :: "jsstring \<Rightarrow> rng \<Rightarrow> (jsstring \<times> rng) option" where
  "shuffleString str g = shuffle_loop str (length str - 1) g"

section \<open>Expression synthesizer\<close>

definition scalar_terminal :: "jsstring \<Rightarrow> rng \<Rightarrow> (jsstring \<times> rng) option" where
  "scalar_terminal uvName g =
     (let (f, g1) = randFloat (lit (1 / 10)) (lit 5) g;
          terms =
            [uvName @ S ''.x'',
             uvName @ S ''.y'',
             S ''length('' @ uvName @ S '' - 0.5)'',
             S ''time'',
             toFixed 2 f,
             S ''f_hash('' @ uvName @ S '')'',
             S ''f_n('' @ uvName @ S ''.x * 10.0)''];
          (t, g2) = getRandomItem terms g1
      in map_option (\<lambda>s. (s, g2)) t)"

definition unary_funcs :: "jsstring list" where
  "unary_funcs =
     [S ''sin'', S ''cos'', S ''fract'', S ''abs'', S ''sqrt'', S ''exp'', S ''f_sin'', S ''f_cos'']"

definition binary_ops :: "jsstring list" where
  "binary_ops = [S ''+'', S ''-'', S ''*'', S ''*'']"

definition wrap_unary :: "jsstring \<Rightarrow> jsstring \<Rightarrow> jsstring" where
  "wrap_unary f inner =
     (let inner1 = (if f = S ''sqrt'' then S ''abs('' @ inner @ S '')'' else inner);
          inner2 = (if f = S ''exp'' then S ''clamp('' @ inner1 @ S '', -10.0, 10.0)'' else inner1)
      in f @ S ''('' @ inner2 @ S '')'')"

text \<open>
  \<open>generateScalarExpr(depth, uvName)\<close>.  Beside the text and the rest of the random source
  the model returns the number of recursive calls that were made, directly or indirectly,
  while the call ran.  The test \<open>depth <= 0 || Math.random() < 0.15\<close> draws only when
  \<open>depth\<close> is positive.
\<close>

function generateScalarExpr_calls ::
  "int \<Rightarrow> jsstring \<Rightarrow> rng \<Rightarrow> (jsstring \<times> nat \<times> rng) option"
where
  "generateScalarExpr_calls depth uvName g =
     (let (stop, g0) =
            (if depth \<le> 0 then (True, g)
             else (let (r, g') = random g in (js_lt r (lit (15 / 100)), g')))
      in if stop then map_option (\<lambda>(s, g'). (s, 0, g')) (scalar_terminal uvName g0)
         else
           (let (rnd, g1) = random g0
            in if js_lt rnd (lit (35 / 100)) then
                 (let (f, g2) = getRandomItem unary_funcs g1
                  in case f of
                       None \<Rightarrow> None
                     | Some f \<Rightarrow>
                         (case generateScalarExpr_calls (depth - 1) uvName g2 of
                            None \<Rightarrow> None
                          | Some (inner, c, g3) \<Rightarrow> Some (wrap_unary f inner, c + 1, g3)))
               else if js_lt rnd (lit (7 / 10)) then
                 (let (op, g2) = getRandomItem binary_ops g1
                  in case op of
                       None \<Rightarrow> None
                     | Some op \<Rightarrow>
                         (case generateScalarExpr_calls (depth - 1) uvName g2 of
                            None \<Rightarrow> None
                          | Some (a, c1, g3) \<Rightarrow>
                              (case generateScalarExpr_calls (depth - 1) uvName g3 of
                                 None \<Rightarrow> None
                               | Some (b, c2, g4) \<Rightarrow>
                                   Some (S ''('' @ a @ S '' '' @ op @ S '' '' @ b @ S '')'',
                                         c1 + c2 + 2, g4))))
               else
                 (let (ty, g2) = random g1
                  in if js_lt ty (lit (33 / 100)) then
                       (case generateScalarExpr_calls (depth - 1) uvName g2 of
                          None \<Rightarrow> None
                        | Some (a, c1, g3) \<Rightarrow>
                            (case generateScalarExpr_calls (depth - 1) uvName g3 of
                               None \<Rightarrow> None
                             | Some (b, c2, g4) \<Rightarrow>
                                 (let (f, g5) = randFloat (lit 0) (lit 1) g4
                                  in Some (S ''mix('' @ a @ S '', '' @ b @ S '', '' @ toFixed 2 f
                                             @ S '')'',
                                           c1 + c2 + 2, g5))))
                     else if js_lt ty (lit (66 / 100)) then
                       (case generateScalarExpr_calls (depth - 1) uvName g2 of
                          None \<Rightarrow> None
                        | Some (a, c, g3) \<Rightarrow>
                            Some (S ''smoothstep(0.0, 1.0, '' @ a @ S '')'', c + 1, g3))
                     else
                       (case generateScalarExpr_calls (depth - 1) uvName g2 of
                          None \<Rightarrow> None
                        | Some (a, c1, g3) \<Rightarrow>
                            (case generateScalarExpr_calls (depth - 1) uvName g3 of
                               None \<Rightarrow> None
                             | Some (b, c2, g4) \<Rightarrow>
                                 Some (S ''f_smin('' @ a @ S '', '' @ b @ S '', 0.5)'',
                                       c1 + c2 + 2, g4))))))"
  by pat_completeness auto
termination
  by (relation "measure (\<lambda>(depth, uvName, g). nat depth)") (auto split: if_splits)

declare generateScalarExpr_calls.simps [simp del]

definition generateScalarExpr :: "int \<Rightarrow> jsstring \<Rightarrow> rng \<Rightarrow> (jsstring \<times> rng) option" where
  "generateScalarExpr depth uvName g =
     map_option (\<lambda>(s, c, g'). (s, g')) (generateScalarExpr_calls depth uvName g)"

text \<open>
  \<open>generateProceduralGene(uvName)\<close>: the three channel expressions are generated first,
  whichever form is returned.
\<close>

definition generateProceduralGene :: "jsstring \<Rightarrow> rng \<Rightarrow> (jsstring \<times> rng) option" where
  "generateProceduralGene uvName g =
     do {
       (r, g1) \<leftarrow> generateScalarExpr 4 uvName g;
       (gr, g2) \<leftarrow> generateScalarExpr 4 uvName g1;
       (b, g3) \<leftarrow> generateScalarExpr 4 uvName g2;
       let (p, g4) = random g3;
       if js_lt p (lit (1 / 2)) then
         do {
           (t, g5) \<leftarrow> generateScalarExpr 3 uvName g4;
           Some (S ''f_pal('' @ t
                 @ S '', vec3<f32>(0.5,0.5,0.5), vec3<f32>(0.5,0.5,0.5), vec3<f32>(1.0,1.0,1.0), vec3<f32>(0.0, 0.33, 0.67))'',
                 g5)
         }
       else Some (S ''vec3<f32>('' @ r @ S '', '' @ gr @ S '', '' @ b @ S '')'', g4)
     }"

section \<open>Reading the token array\<close>

text \<open>\<open>tokens[i]\<close>: \<open>None\<close> is \<open>undefined\<close>, whose \<open>type\<close> and \<open>value\<close> cannot be read.\<close>

definition tok_at :: "Token list \<Rightarrow> int \<Rightarrow> Token option" where
  "tok_at ts i = (if 0 \<le> i \<and> i < int (length ts) then Some (ts ! nat i) else None)"

definition is_ws :: "Token \<Rightarrow> bool" where
  "is_ws t = (tok_type t = Whitespace)"

definition has_value :: "jsstring \<Rightarrow> Token \<Rightarrow> bool" where
  "has_value v t = (tok_value t = v)"

definition is_ident :: "jsstring \<Rightarrow> Token \<Rightarrow> bool" where
  "is_ident v t = (tok_type t = Ident \<and> tok_value t = v)"

text \<open>\<open>while (j < tokens.length && P(tokens[j])) j++\<close>: the final \<open>j\<close>.\<close>

function scan_while :: "(Token \<Rightarrow> bool) \<Rightarrow> Token list \<Rightarrow> int \<Rightarrow> int option" where
  "scan_while P ts j =
     (if j < int (length ts) then
        (case tok_at ts j of
           None \<Rightarrow> None
         | Some t \<Rightarrow> if P t then scan_while P ts (j + 1) else Some j)
      else Some j)"
  by pat_completeness auto
termination
  by (relation "measure (\<lambda>(P, ts, j). nat (int (length ts) - j))") auto

declare scan_while.simps [simp del]

text \<open>\<open>while (j >= 0 && P(tokens[j])) j--\<close>: the final \<open>j\<close>.\<close>

function scan_back :: "(Token \<Rightarrow> bool) \<Rightarrow> Token list \<Rightarrow> int \<Rightarrow> int option" where
  "scan_back P ts j =
     (if 0 \<le> j then
        (case tok_at ts j of
           None \<Rightarrow> None
         | Some t \<Rightarrow> if P t then scan_back P ts (j - 1) else Some j)
      else Some j)"
  by pat_completeness auto
termination
  by (relation "measure (\<lambda>(P, ts, j). nat (j + 1))") auto

declare scan_back.simps [simp del]

text \<open>
  \<open>let r = -1; for (let i = start; i < tokens.length; i++) if (P(tokens[i])) { r = i; break; }\<close>:
  the final \<open>r\<close>.
\<close>

function find_from :: "(Token \<Rightarrow> bool) \<Rightarrow> Token list \<Rightarrow> int \<Rightarrow> int option" where
  "find_from P ts i =
     (if i < int (length ts) then
        (case tok_at ts i of
           None \<Rightarrow> None
         | Some t \<Rightarrow> if P t then Some i else find_from P ts (i + 1))
      else Some (- 1))"
  by pat_completeness auto
termination
  by (relation "measure (\<lambda>(P, ts, i). nat (int (length ts) - i))") auto

declare find_from.simps [simp del]

text \<open>
  \<open>let r = -1; for (let i = start; i >= 0; i--) if (P(tokens[i])) { r = i; break; }\<close>:
  the final \<open>r\<close>.
\<close>

function find_back :: "(Token \<Rightarrow> bool) \<Rightarrow> Token list \<Rightarrow> int \<Rightarrow> int option" where
  "find_back P ts i =
     (if 0 \<le> i then
        (case tok_at ts i of
           None \<Rightarrow> None
         | Some t \<Rightarrow> if P t then Some i else find_back P ts (i - 1))
      else Some (- 1))"
  by pat_completeness auto
termination
  by (relation "measure (\<lambda>(P, ts, i). nat (i + 1))") auto

declare find_back.simps [simp del]

text \<open>\<open>arr.slice(start, stop)\<close> and \<open>arr.splice(start, deleteCount, ...items)\<close> on a copy.\<close>

definition clamp_index :: "int \<Rightarrow> int \<Rightarrow> int" where
  "clamp_index len i = (if i < 0 then max (len + i) 0 else min i len)"

definition slice :: "'a list \<Rightarrow> int \<Rightarrow> int \<Rightarrow> 'a list" where
  "slice xs start stop =
     (let len = int (length xs); s = clamp_index len start; e = clamp_index len stop
      in take (nat (e - s)) (drop (nat s) xs))"

definition splice :: "'a list \<Rightarrow> int \<Rightarrow> int \<Rightarrow> 'a list \<Rightarrow> 'a list" where
  "splice xs start deleteCount items =
     (let len = int (length xs); s = clamp_index len start;
          d = min (max deleteCount 0) (len - s)
      in take (nat s) xs @ items @ drop (nat (s + d)) xs)"

text \<open>
  \<open>tokens.map(callback)\<close> for a callback that draws from the random source: the elements
  are visited in order.
\<close>

fun map_tokens ::
  "(Token \<Rightarrow> rng \<Rightarrow> (Token \<times> rng) option) \<Rightarrow> Token list \<Rightarrow> rng \<Rightarrow> (Token list \<times> rng) option"
where
  "map_tokens f [] g = Some ([], g)"
| "map_tokens f (t # ts) g =
     (case f t g of
        None \<Rightarrow> None
      | Some (t', g1) \<Rightarrow>
          (case map_tokens f ts g1 of
             None \<Rightarrow> None
           | Some (ts', g2) \<Rightarrow> Some (t' # ts', g2)))"

section \<open>Mutation passes\<close>

subsection \<open>Numbers, operators, builtins\<close>

definition OPS :: "jsstring list" where
  "OPS = [S ''+'', S ''-'', S ''*'', S ''/'']"

definition SAFE_BUILTINS :: "jsstring list" where
  "SAFE_BUILTINS =
     [S ''sin'', S ''cos'', S ''tan'', S ''abs'', S ''floor'', S ''ceil'', S ''fract'',
      S ''sqrt'', S ''f_sin'', S ''f_cos'', S ''f_n'', S ''f_hash'', S ''length'']"

text \<open>\<open>t.value.includes('.')\<close>\<close>

definition includes_dot :: "jsstring \<Rightarrow> bool" where
  "includes_dot v = (46 \<in> set v)"

text \<open>
  \<open>const newVal = Math.random() < 0.5 ? val + (Math.random() - 0.5) : val * (0.5 + Math.random())\<close>
\<close>

definition perturb_number :: "jsnum \<Rightarrow> rng \<Rightarrow> jsnum \<times> rng" where
  "perturb_number val g =
     (let (r2, g2) = random g;
          (r3, g3) = random g2
      in (if js_lt r2 (lit (1 / 2))
          then js_add val (js_sub r3 (lit (1 / 2)))
          else js_mul val (js_add (lit (1 / 2)) r3),
          g3))"

text \<open>The callback of \<open>mutateNumbers\<close>.\<close>

definition mutate_number :: "jsnum \<Rightarrow> Token \<Rightarrow> rng \<Rightarrow> (Token \<times> rng) option" where
  "mutate_number intensity t g =
     (if tok_type t = Number \<and> includes_dot (tok_value t) then
        (let (r1, g1) = random g
         in if js_lt r1 intensity then
              (let val = parseFloat (tok_value t)
               in if \<not> isNaN val then
                    (let (newVal, g3) = perturb_number val g1
                     in if js_lt (math_abs newVal) (lit (1 / 1000))
                        then Some (t\<lparr>tok_value := S ''0.0''\<rparr>, g3)
                        else Some (t\<lparr>tok_value := toFixed 3 newVal\<rparr>, g3))
                  else Some (t, g1))
            else Some (t, g1))
      else Some (t, g))"

definition mutateNumbers :: "Token list \<Rightarrow> jsnum \<Rightarrow> rng \<Rightarrow> (Token list \<times> rng) option" where
  "mutateNumbers tokens intensity g = map_tokens (mutate_number intensity) tokens g"

text \<open>The callback of \<open>mutateOperators\<close>.\<close>

definition mutate_operator :: "jsnum \<Rightarrow> Token \<Rightarrow> rng \<Rightarrow> (Token \<times> rng) option" where
  "mutate_operator intensity t g =
     (if tok_type t = Punct \<and> tok_value t \<in> set OPS then
        (let (r, g1) = random g
         in if js_lt r intensity then
              (let (v, g2) = getRandomItem OPS g1
               in map_option (\<lambda>v. (t\<lparr>tok_value := v\<rparr>, g2)) v)
            else Some (t, g1))
      else Some (t, g))"

definition mutateOperators :: "Token list \<Rightarrow> jsnum \<Rightarrow> rng \<Rightarrow> (Token list \<times> rng) option" where
  "mutateOperators tokens intensity g = map_tokens (mutate_operator intensity) tokens g"

text \<open>The callback of \<open>mutateBuiltins\<close>.\<close>

definition mutate_builtin :: "jsnum \<Rightarrow> Token \<Rightarrow> rng \<Rightarrow> (Token \<times> rng) option" where
  "mutate_builtin intensity t g =
     (if tok_type t = Ident \<and> tok_value t \<in> set SAFE_BUILTINS then
        (let (r, g1) = random g
         in if js_lt r intensity then
              (let (v, g2) = getRandomItem SAFE_BUILTINS g1
               in map_option (\<lambda>v. (t\<lparr>tok_value := v\<rparr>, g2)) v)
            else Some (t, g1))
      else Some (t, g))"

definition mutateBuiltins :: "Token list \<Rightarrow> jsnum \<Rightarrow> rng \<Rightarrow> (Token list \<times> rng) option" where
  "mutateBuiltins tokens intensity g = map_tokens (mutate_builtin intensity) tokens g"

subsection \<open>Anchors\<close>

text \<open>
  The search for the entry function that opens \<open>mutateGeometry\<close> and \<open>mutateStructure\<close>:
  the first \<open>fn\<close> identifier, at an index below \<open>tokens.length - 1\<close>, whose next token after
  white space has the value \<open>main\<close>; \<open>-1\<close> when there is none.
\<close>

function find_main_from :: "Token list \<Rightarrow> int \<Rightarrow> int option" where
  "find_main_from ts i =
     (if i < int (length ts) - 1 then
        do {
          t \<leftarrow> tok_at ts i;
          if tok_type t = Ident \<and> tok_value t = S ''fn'' then
            do {
              j \<leftarrow> scan_while is_ws ts (i + 1);
              found \<leftarrow> (if j < int (length ts)
                        then map_option (has_value (S ''main'')) (tok_at ts j)
                        else Some False);
              if found then Some i else find_main_from ts (i + 1)
            }
          else find_main_from ts (i + 1)
        }
      else Some (- 1))"
  by pat_completeness auto
termination
  by (relation "measure (\<lambda>(ts, i). nat (int (length ts) - i))") auto

declare find_main_from.simps [simp del]

definition find_main :: "Token list \<Rightarrow> int option" where
  "find_main ts = find_main_from ts 0"

text \<open>
  The second loop of \<open>findUVName\<close>: the identifier after the annotation \<open>location(...)\<close>,
  looked for up to the first \<open>)\<close>; the empty string when the loop ends without one.
\<close>

function location_loop :: "Token list \<Rightarrow> int \<Rightarrow> jsstring option" where
  "location_loop ts i =
     (if i < int (length ts) then
        do {
          t \<leftarrow> tok_at ts i;
          if tok_value t = S '')'' then Some []
          else if tok_value t = S ''location'' then
            do {
              j \<leftarrow> scan_while (\<lambda>u. tok_value u \<noteq> S '')'') ts (i + 1);
              j' \<leftarrow> scan_while is_ws ts (j + 1);
              name \<leftarrow> (if j' < int (length ts)
                       then map_option
                              (\<lambda>u. if tok_type u = Ident then Some (tok_value u) else None)
                              (tok_at ts j')
                       else Some None);
              case name of
                Some v \<Rightarrow> Some v
              | None \<Rightarrow> location_loop ts (i + 1)
            }
          else location_loop ts (i + 1)
        }
      else Some [])"
  by pat_completeness auto
termination
  by (relation "measure (\<lambda>(ts, i). nat (int (length ts) - i))") auto

declare location_loop.simps [simp del]

text \<open>The third loop of \<open>findUVName\<close>: a token \<open>uv\<close> before the first \<open>)\<close>.\<close>

function uv_loop :: "Token list \<Rightarrow> int \<Rightarrow> jsstring option" where
  "uv_loop ts i =
     (if i < int (length ts) then
        do {
          t \<leftarrow> tok_at ts i;
          if tok_value t = S '')'' then Some []
          else if tok_value t = S ''uv'' then Some (S ''uv'')
          else uv_loop ts (i + 1)
        }
      else Some [])"
  by pat_completeness auto
termination
  by (relation "measure (\<lambda>(ts, i). nat (int (length ts) - i))") auto

declare uv_loop.simps [simp del]

text \<open>\<open>findUVName(tokens, mainIdx)\<close>: the inner \<open>None\<close> is \<open>null\<close>.\<close>

definition findUVName :: "Token list \<Rightarrow> int \<Rightarrow> jsstring option option" where
  "findUVName tokens mainIdx =
     do {
       argsStart \<leftarrow> find_from (has_value (S ''('')) tokens mainIdx;
       if argsStart = - 1 then Some None
       else
         do {
           uvName \<leftarrow> location_loop tokens argsStart;
           if uvName = [] then map_option Some (uv_loop tokens argsStart)
           else Some (Some uvName)
         }
     }"

text \<open>The search for the last \<open>return\<close> and the first \<open>;\<close> from it.\<close>

definition find_return :: "Token list \<Rightarrow> int option" where
  "find_return tokens = find_back (is_ident (S ''return'')) tokens (int (length tokens) - 1)"

definition find_semi :: "Token list \<Rightarrow> int \<Rightarrow> int option" where
  "find_semi tokens retIdx = find_from (has_value (S '';'')) tokens retIdx"

text \<open>\<open>spliceStart < tokens.length && tokens[spliceStart].type === 'whitespace'\<close>\<close>

definition ws_at :: "Token list \<Rightarrow> int \<Rightarrow> bool option" where
  "ws_at tokens i =
     (if i < int (length tokens) then map_option is_ws (tok_at tokens i) else Some False)"

subsection \<open>Geometry\<close>

text \<open>
  The array \<open>mutations\<close>: all five texts are built, which draws three times, before one
  is chosen.
\<close>

definition geometry_mutations :: "jsstring \<Rightarrow> jsstring \<Rightarrow> rng \<Rightarrow> jsstring list \<times> rng" where
  "geometry_mutations uvName mutVar g =
     (let (a, g1) = randFloat (lit (- (1 / 2))) (lit (1 / 2)) g;
          (b, g2) = randFloat (lit (1 / 2)) (lit 2) g1;
          (c, g3) = randFloat (lit 2) (lit 5) g2
      in ([S ''var '' @ mutVar @ S '' = f_rot('' @ uvName @ S '', time * '' @ toFixed 2 a
             @ S '');'',
           S ''var '' @ mutVar @ S '' = '' @ uvName @ S '' * '' @ toFixed 2 b
             @ S '' + vec2<f32>(sin(time), cos(time)) * 0.1;'',
           S ''var '' @ mutVar @ S '' = abs('' @ uvName @ S '' * 2.0 - 1.0);'',
           S ''var '' @ mutVar @ S '' = fract('' @ uvName @ S '' * '' @ toFixed 2 c @ S '');'',
           S ''var '' @ mutVar @ S '' = '' @ uvName @ S '' + vec2<f32>(f_n('' @ uvName
             @ S ''.x*10.0), f_n('' @ uvName @ S ''.y*10.0))*0.05;''],
          g3))"

text \<open>
  \<open>prev >= 0 && newTokens[prev].value === '.'\<close> and
  \<open>next < newTokens.length && newTokens[next].value === ':'\<close>
\<close>

definition value_at_back :: "jsstring \<Rightarrow> Token list \<Rightarrow> int \<Rightarrow> bool option" where
  "value_at_back v ts i = (if 0 \<le> i then map_option (has_value v) (tok_at ts i) else Some False)"

definition value_at :: "jsstring \<Rightarrow> Token list \<Rightarrow> int \<Rightarrow> bool option" where
  "value_at v ts i =
     (if i < int (length ts) then map_option (has_value v) (tok_at ts i) else Some False)"

text \<open>
  The body of the renaming loop of \<open>mutateGeometry\<close> at index \<open>i\<close>: an identifier equal
  to the coordinate name is renamed unless the token before it (white space skipped) is
  \<open>.\<close> or the token after it (white space skipped) is \<open>:\<close>.  The loop writes into
  \<open>newTokens\<close> as it goes.
\<close>

definition rename_body :: "jsstring \<Rightarrow> jsstring \<Rightarrow> Token list \<Rightarrow> int \<Rightarrow> Token list option" where
  "rename_body uvName mutVar nts i =
     do {
       t \<leftarrow> tok_at nts i;
       if tok_type t = Ident \<and> tok_value t = uvName then
         do {
           prev \<leftarrow> scan_back is_ws nts (i - 1);
           after_dot \<leftarrow> value_at_back (S ''.'') nts prev;
           if after_dot then Some nts
           else
             do {
               next \<leftarrow> scan_while is_ws nts (i + 1);
               before_colon \<leftarrow> value_at (S '':'') nts next;
               if before_colon then Some nts
               else Some (nts[nat i := t\<lparr>tok_value := mutVar\<rparr>])
             }
         }
       else Some nts
     }"

lemma rename_body_length:
  "rename_body uvName mutVar nts i = Some nts' \<Longrightarrow> length nts' = length nts"
  by (auto simp: rename_body_def split: bind_splits if_splits)

function rename_loop :: "jsstring \<Rightarrow> jsstring \<Rightarrow> Token list \<Rightarrow> int \<Rightarrow> Token list option" where
  "rename_loop uvName mutVar nts i =
     (if i < int (length nts) then
        (case rename_body uvName mutVar nts i of
           None \<Rightarrow> None
         | Some nts' \<Rightarrow> rename_loop uvName mutVar nts' (i + 1))
      else Some nts)"
  by pat_completeness auto
termination
  by (relation "measure (\<lambda>(uvName, mutVar, nts, i). nat (int (length nts) - i))")
    (auto dest: rename_body_length)

declare rename_loop.simps [simp del]

definition geometry_ws :: Token where
  "geometry_ws = \<lparr>tok_type = Whitespace, tok_value = 10 # S ''    '', tok_index = - 1\<rparr>"

definition geometry_semi :: Token where
  "geometry_semi = \<lparr>tok_type = Punct, tok_value = S '';'', tok_index = - 1\<rparr>"

definition mutateGeometry :: "Token list \<Rightarrow> jsnum \<Rightarrow> rng \<Rightarrow> (Token list \<times> rng) option" where
  "mutateGeometry tokens intensity g =
     do {
       mainIdx \<leftarrow> find_main tokens;
       if mainIdx = - 1 then Some (tokens, g)
       else
         do {
           uv \<leftarrow> findUVName tokens mainIdx;
           case uv of
             None \<Rightarrow> Some (tokens, g)
           | Some uvName \<Rightarrow>
               if uvName = [] then Some (tokens, g)
               else
                 do {
                   argsStart \<leftarrow> find_from (has_value (S ''('')) tokens mainIdx;
                   bodyStart \<leftarrow> find_from (has_value (S ''{'')) tokens argsStart;
                   if bodyStart = - 1 then Some (tokens, g)
                   else
                     do {
                       let (r, g1) = random g;
                       let uniqueId = math_floor (js_mul r (lit 100000));
                       let mutVar = uvName @ S ''_geo_'' @ toString uniqueId;
                       let (mutations, g2) = geometry_mutations uvName mutVar g1;
                       let (chosen, g3) = getRandomItem mutations g2;
                       injectionStr \<leftarrow> chosen;
                       let injectionTokens = tokenize injectionStr;
                       let newTokens =
                             splice tokens (bodyStart + 1) 0
                               ([geometry_ws] @ injectionTokens @ [geometry_semi]);
                       renamed \<leftarrow>
                         rename_loop uvName mutVar newTokens
                           (bodyStart + 1 + int (length injectionTokens) + 2);
                       Some (renamed, g3)
                     }
                 }
         }
     }"

subsection \<open>Color\<close>

text \<open>
  The body of the inner loop of \<open>mutateColor\<close> at index \<open>j\<close>: the balance of parentheses
  is updated, and a number with a decimal point inside the call is perturbed.
\<close>

definition color_arg ::
  "jsnum \<Rightarrow> Token list \<Rightarrow> int \<Rightarrow> int \<Rightarrow> rng \<Rightarrow> (Token list \<times> int \<times> rng) option"
where
  "color_arg intensity nts j balance g =
     do {
       t \<leftarrow> tok_at nts j;
       let b1 = (if tok_value t = S ''('' then balance + 1 else balance);
       let b2 = (if tok_value t = S '')'' then b1 - 1 else b1);
       if 0 < b2 \<and> tok_type t = Number \<and> includes_dot (tok_value t) then
         (let (r, g1) = random g
          in if js_lt r intensity then
               (let val = parseFloat (tok_value t);
                    (r2, g2) = random g1;
                    offset = js_mul (js_mul (js_sub r2 (lit (1 / 2))) intensity) (lit 2);
                    newVal = js_add val offset
                in Some (nts[nat j := t\<lparr>tok_value := toFixed 2 newVal\<rparr>], b2, g2))
             else Some (nts, b2, g1))
       else Some (nts, b2, g)
     }"

lemma color_arg_length:
  "color_arg intensity nts j balance g = Some (nts', b', g') \<Longrightarrow> length nts' = length nts"
  by (auto simp: color_arg_def Let_def split: bind_splits if_splits prod.splits)

text \<open>\<open>while (j < newTokens.length && balance > 0) { ...; j++; }\<close>\<close>

function color_args ::
  "jsnum \<Rightarrow> Token list \<Rightarrow> int \<Rightarrow> int \<Rightarrow> rng \<Rightarrow> (Token list \<times> rng) option"
where
  "color_args intensity nts j balance g =
     (if j < int (length nts) \<and> 0 < balance then
        (case color_arg intensity nts j balance g of
           None \<Rightarrow> None
         | Some (nts', balance', g') \<Rightarrow> color_args intensity nts' (j + 1) balance' g')
      else Some (nts, g))"
  by pat_completeness auto
termination
  by (relation "measure (\<lambda>(intensity, nts, j, balance, g). nat (int (length nts) - j))")
    (auto dest: color_arg_length)

declare color_args.simps [simp del]

lemma color_args_length:
  "color_args intensity nts j balance g = Some (nts', g') \<Longrightarrow> length nts' = length nts"
proof (induction intensity nts j balance g rule: color_args.induct)
  case (1 intensity nts j balance g)
  show ?case
  proof (cases "j < int (length nts) \<and> 0 < balance")
    case False
    with "1.prems" show ?thesis
      by (simp add: color_args.simps [of intensity nts j])
  next
    case True
    with "1.prems" obtain n1 b1 g1 where
      a: "color_arg intensity nts j balance g = Some (n1, b1, g1)"
      and r: "color_args intensity n1 (j + 1) b1 g1 = Some (nts', g')"
      by (auto simp: color_args.simps [of intensity nts j] split: option.splits)
    from "1.IH" [OF True a refl refl r] color_arg_length [OF a] show ?thesis
      by simp
  qed
qed

text \<open>
  The head of a constructor call at \<open>i\<close>: white space, an optional clause from \<open><\<close> up to
  \<open>>\<close>, white space again; the result is the index \<open>ptr\<close> where \<open>(\<close> is expected.
\<close>

definition color_ptr :: "Token list \<Rightarrow> int \<Rightarrow> int option" where
  "color_ptr nts i =
     do {
       ptr \<leftarrow> scan_while is_ws nts (i + 1);
       generic \<leftarrow> value_at (S ''<'') nts ptr;
       if generic then
         do {
           ptr' \<leftarrow> scan_while (\<lambda>u. tok_value u \<noteq> S ''>'') nts ptr;
           scan_while is_ws nts (ptr' + 1)
         }
       else Some ptr
     }"

text \<open>The body of the outer loop of \<open>mutateColor\<close> at index \<open>i\<close>.\<close>

definition color_body ::
  "jsnum \<Rightarrow> Token list \<Rightarrow> int \<Rightarrow> rng \<Rightarrow> (Token list \<times> rng) option"
where
  "color_body intensity nts i g =
     do {
       t \<leftarrow> tok_at nts i;
       if tok_type t = Ident \<and> (tok_value t = S ''vec3'' \<or> tok_value t = S ''vec4'') then
         do {
           ptr \<leftarrow> color_ptr nts i;
           call \<leftarrow> value_at (S ''('') nts ptr;
           if call then color_args intensity nts (ptr + 1) 1 g else Some (nts, g)
         }
       else Some (nts, g)
     }"

lemma color_body_length:
  "color_body intensity nts i g = Some (nts', g') \<Longrightarrow> length nts' = length nts"
  by (auto simp: color_body_def split: bind_splits if_splits dest: color_args_length)

function color_loop ::
  "jsnum \<Rightarrow> Token list \<Rightarrow> int \<Rightarrow> rng \<Rightarrow> (Token list \<times> rng) option"
where
  "color_loop intensity nts i g =
     (if i < int (length nts) then
        (case color_body intensity nts i g of
           None \<Rightarrow> None
         | Some (nts', g') \<Rightarrow> color_loop intensity nts' (i + 1) g')
      else Some (nts, g))"
  by pat_completeness auto
termination
  by (relation "measure (\<lambda>(intensity, nts, i, g). nat (int (length nts) - i))")
    (auto dest: color_body_length)

declare color_loop.simps [simp del]

definition mutateColor :: "Token list \<Rightarrow> jsnum \<Rightarrow> rng \<Rightarrow> (Token list \<times> rng) option" where
  "mutateColor tokens intensity g = color_loop intensity tokens 0 g"

subsection \<open>Chaos\<close>

definition chaosOptions :: "jsstring \<Rightarrow> jsstring list" where
  "chaosOptions exprStr =
     [S ''( '' @ exprStr @ S '' + vec4<f32>(0.1, 0.1, 0.1, 0.0) )'',
      S ''abs( '' @ exprStr @ S '' - 0.5 ) * 2.0'',
      S ''vec4<f32>( ('' @ exprStr @ S '').brg, 1.0 )'',
      S ''mix( '' @ exprStr @ S '', vec4<f32>(sin(time), cos(time), 0.5, 1.0), 0.1 )'',
      S ''('' @ exprStr @ S '' * vec4<f32>(1.2, 0.9, 0.8, 1.0))'']"

definition mutateChaos :: "Token list \<Rightarrow> jsnum \<Rightarrow> rng \<Rightarrow> (Token list \<times> rng) option" where
  "mutateChaos tokens intensity g =
     do {
       retIdx \<leftarrow> find_return tokens;
       if retIdx = - 1 then Some (tokens, g)
       else
         do {
           semiIdx \<leftarrow> find_semi tokens retIdx;
           if semiIdx = - 1 then Some (tokens, g)
           else
             do {
               ws \<leftarrow> ws_at tokens (retIdx + 1);
               let spliceStart0 = (if ws then retIdx + 2 else retIdx + 1);
               let spliceStart = (if spliceStart0 \<ge> semiIdx then retIdx + 1 else spliceStart0);
               let preservedWhitespace = (if spliceStart0 \<ge> semiIdx then False else ws);
               let exprStr = serialize (slice tokens spliceStart semiIdx);
               let (chosen, g1) = getRandomItem (chaosOptions exprStr) g;
               option \<leftarrow> chosen;
               let injectionStr = (if \<not> preservedWhitespace then S '' '' @ option else option);
               let chaosTokens = tokenize injectionStr;
               Some (splice tokens spliceStart (semiIdx - spliceStart) chaosTokens, g1)
             }
         }
     }"

subsection \<open>Swizzle\<close>

text \<open>\<open>/^[xyzrgba]{2,4}$/.test(v)\<close>\<close>

definition is_swizzle :: "jsstring \<Rightarrow> bool" where
  "is_swizzle v = (2 \<le> length v \<and> length v \<le> 4 \<and> list_all (\<lambda>c. c \<in> set (S ''xyzrgba'')) v)"

text \<open>The body of the loop of \<open>mutateSwizzle\<close> at index \<open>i\<close>.\<close>

definition swizzle_body ::
  "jsnum \<Rightarrow> Token list \<Rightarrow> int \<Rightarrow> rng \<Rightarrow> (Token list \<times> rng) option"
where
  "swizzle_body intensity nts i g =
     do {
       t \<leftarrow> tok_at nts i;
       if tok_value t = S ''.'' \<and> tok_type t = Punct then
         do {
           next \<leftarrow> tok_at nts (i + 1);
           if tok_type next = Ident \<and> is_swizzle (tok_value next) then
             (let (r, g1) = random g
              in if js_lt r intensity then
                   do {
                     (v, g2) \<leftarrow> shuffleString (tok_value next) g1;
                     Some (nts[nat (i + 1) := next\<lparr>tok_value := v\<rparr>], g2)
                   }
                 else Some (nts, g1))
           else Some (nts, g)
         }
       else Some (nts, g)
     }"

lemma swizzle_body_length:
  "swizzle_body intensity nts i g = Some (nts', g') \<Longrightarrow> length nts' = length nts"
  by (auto simp: swizzle_body_def Let_def split: bind_splits if_splits prod.splits)

text \<open>\<open>for (let i = 0; i < newTokens.length - 1; i++)\<close>\<close>

function swizzle_loop ::
  "jsnum \<Rightarrow> Token list \<Rightarrow> int \<Rightarrow> rng \<Rightarrow> (Token list \<times> rng) option"
where
  "swizzle_loop intensity nts i g =
     (if i < int (length nts) - 1 then
        (case swizzle_body intensity nts i g of
           None \<Rightarrow> None
         | Some (nts', g') \<Rightarrow> swizzle_loop intensity nts' (i + 1) g')
      else Some (nts, g))"
  by pat_completeness auto
termination
  by (relation "measure (\<lambda>(intensity, nts, i, g). nat (int (length nts) - i))")
    (auto dest: swizzle_body_length)

declare swizzle_loop.simps [simp del]

definition mutateSwizzle :: "Token list \<Rightarrow> jsnum \<Rightarrow> rng \<Rightarrow> (Token list \<times> rng) option" where
  "mutateSwizzle tokens intensity g = swizzle_loop intensity tokens 0 g"

subsection \<open>Structure\<close>

definition mutateStructure :: "Token list \<Rightarrow> jsnum \<Rightarrow> rng \<Rightarrow> (Token list \<times> rng) option" where
  "mutateStructure tokens intensity g =
     do {
       mainIdx \<leftarrow> find_main tokens;
       if mainIdx = - 1 then Some (tokens, g)
       else
         do {
           uv \<leftarrow> findUVName tokens mainIdx;
           case uv of
             None \<Rightarrow> Some (tokens, g)
           | Some uvName \<Rightarrow>
               if uvName = [] then Some (tokens, g)
               else
                 do {
                   retIdx \<leftarrow> find_return tokens;
                   if retIdx = - 1 then Some (tokens, g)
                   else
                     do {
                       semiIdx \<leftarrow> find_semi tokens retIdx;
                       if semiIdx = - 1 then Some (tokens, g)
                       else
                         do {
                           preservedWhitespace \<leftarrow> ws_at tokens (retIdx + 1);
                           let spliceStart =
                                 (if preservedWhitespace then retIdx + 2 else retIdx + 1);
                           (geneCode, g1) \<leftarrow> generateProceduralGene uvName g;
                           let code = S ''vec4<f32>('' @ geneCode @ S '', 1.0)'';
                           let injectionStr =
                                 (if \<not> preservedWhitespace then S '' '' @ code else code);
                           let injectionTokens = tokenize injectionStr;
                           if semiIdx > spliceStart
                           then Some (splice tokens spliceStart (semiIdx - spliceStart)
                                        injectionTokens, g1)
                           else Some (splice tokens spliceStart 0 injectionTokens, g1)
                         }
                     }
                 }
         }
     }"

section \<open>Pipeline orchestrator\<close>

text \<open>\<open>interface FuzzConfig\<close>\<close>

record FuzzConfig =
  cfg_mutateNumbers :: bool
  cfg_mutateOperators :: bool
  cfg_mutateBuiltins :: bool
  cfg_mutateGeometry :: bool
  cfg_mutateColor :: bool
  cfg_mutateChaos :: bool
  cfg_mutateStructure :: bool
  cfg_intensity :: jsnum

text \<open>
  \<open>if (flag && Math.random() < config.intensity) tokens = pass(tokens, config.intensity)\<close>:
  the draw is made only when the flag is set.
\<close>

definition gated ::
  "bool \<Rightarrow> (Token list \<Rightarrow> jsnum \<Rightarrow> rng \<Rightarrow> (Token list \<times> rng) option) \<Rightarrow> jsnum
     \<Rightarrow> Token list \<Rightarrow> rng \<Rightarrow> (Token list \<times> rng) option"
where
  "gated flag pass intensity tokens g =
     (if flag then
        (let (r, g1) = random g
         in if js_lt r intensity then pass tokens intensity g1 else Some (tokens, g1))
      else Some (tokens, g))"

text \<open>\<open>if (flag) tokens = pass(tokens, config.intensity)\<close>\<close>

definition enabled ::
  "bool \<Rightarrow> (Token list \<Rightarrow> jsnum \<Rightarrow> rng \<Rightarrow> (Token list \<times> rng) option) \<Rightarrow> jsnum
     \<Rightarrow> Token list \<Rightarrow> rng \<Rightarrow> (Token list \<times> rng) option"
where
  "enabled flag pass intensity tokens g =
     (if flag then pass tokens intensity g else Some (tokens, g))"

definition fuzzShader :: "jsstring \<Rightarrow> FuzzConfig \<Rightarrow> rng \<Rightarrow> jsstring option" where
  "fuzzShader code config g =
     do {
       let tokens = tokenize code;
       let intensity = cfg_intensity config;
       (t1, g1) \<leftarrow> gated (cfg_mutateStructure config) mutateStructure intensity tokens g;
       (t2, g2) \<leftarrow> gated (cfg_mutateGeometry config) mutateGeometry intensity t1 g1;
       (t3, g3) \<leftarrow> gated (cfg_mutateColor config) mutateColor intensity t2 g2;
       (t4, g4) \<leftarrow> gated (cfg_mutateChaos config) mutateChaos intensity t3 g3;
       (t5, g5) \<leftarrow> enabled (cfg_mutateNumbers config) mutateNumbers intensity t4 g4;
       (t6, g6) \<leftarrow> enabled (cfg_mutateOperators config) mutateOperators intensity t5 g5;
       (t7, g7) \<leftarrow> enabled (cfg_mutateBuiltins config) mutateBuiltins intensity t6 g6;
       (t8, g8) \<leftarrow> enabled (js_lt (lit (15 / 100)) intensity) mutateSwizzle intensity t7 g7;
       Some (serialize t8)
     }"

section \<open>Properties of the lexer\<close>

lemma serialize_tokenize_from:
  "serialize (tokenize_from code i) = drop i code"
proof (induction code i rule: tokenize_from.induct)
  case (1 code i)
  show ?case
  proof (cases "i < length code")
    case False
    then show ?thesis by (simp add: tokenize_from.simps [of code i] serialize_def)
  next
    case True
    show ?thesis
    proof (cases "first_match patterns (drop i code)")
      case None
      have "serialize (tokenize_from code (i + 1)) = drop (i + 1) code"
        by (rule 1(1) [OF True None])
      with True None show ?thesis
        by (simp add: tokenize_from.simps [of code i] serialize_def Cons_nth_drop_Suc)
    next
      case (Some p)
      obtain ty m where p: "p = (ty, m)" by (cases p)
      from Some p have "nonempty_prefix m (drop i code)"
        by (simp add: first_match_patterns_prefix)
      then have "drop i code = m @ drop (length m) (drop i code)"
        by (metis append_eq_conv_conj nonempty_prefix_def prefix_def)
      then have d: "m @ drop (i + length m) code = drop i code"
        by (simp add: add.commute)
      have "serialize (tokenize_from code (i + length m)) = drop (i + length m) code"
        by (rule 1(2) [OF True Some [unfolded p] refl])
      with True Some p d show ?thesis
        by (simp add: tokenize_from.simps [of code i] serialize_def)
    qed
  qed
qed

text \<open>
  C1 (round trip).  For every source string, the texts of the tokens of \<open>tokenize\<close>,
  concatenated in order, are the source string again, code unit for code unit.
\<close>

theorem tokenize_roundtrip: "serialize (tokenize T) = T"
  by (simp add: tokenize_def serialize_tokenize_from)

section \<open>Reading tokens never fails inside the bounds\<close>

lemma tok_at_Some [simp]: "0 \<le> i \<Longrightarrow> i < int (length ts) \<Longrightarrow> tok_at ts i = Some (ts ! nat i)"
  by (simp add: tok_at_def)

lemma tok_at_None [simp]: "i < 0 \<Longrightarrow> tok_at ts i = None"
  by (simp add: tok_at_def)

lemma scan_while_total:
  "0 \<le> j \<Longrightarrow> \<exists>k. scan_while P ts j = Some k \<and> j \<le> k"
proof (induction P ts j rule: scan_while.induct)
  case (1 P ts j)
  show ?case
  proof (cases "j < int (length ts)")
    case False
    then show ?thesis by (simp add: scan_while.simps [of P ts j])
  next
    case True
    with "1.prems" have t: "tok_at ts j = Some (ts ! nat j)" by simp
    show ?thesis
    proof (cases "P (ts ! nat j)")
      case False
      with True t show ?thesis by (simp add: scan_while.simps [of P ts j])
    next
      case p: True
      from "1.IH" [OF True t p] "1.prems" obtain k where "scan_while P ts (j + 1) = Some k" "j + 1 \<le> k"
        by auto
      with True t p show ?thesis by (simp add: scan_while.simps [of P ts j])
    qed
  qed
qed


lemma find_from_total:
  "0 \<le> i \<Longrightarrow>
     \<exists>k. find_from P ts i = Some k \<and> (k = - 1 \<or> (i \<le> k \<and> k < int (length ts) \<and> P (ts ! nat k)))"
proof (induction P ts i rule: find_from.induct)
  case (1 P ts i)
  show ?case
  proof (cases "i < int (length ts)")
    case False
    then show ?thesis by (simp add: find_from.simps [of P ts i])
  next
    case True
    with "1.prems" have t: "tok_at ts i = Some (ts ! nat i)" by simp
    show ?thesis
    proof (cases "P (ts ! nat i)")
      case True
      with \<open>i < int (length ts)\<close> t show ?thesis by (simp add: find_from.simps [of P ts i])
    next
      case False
      from "1.IH" [OF True t False] "1.prems" obtain k where "find_from P ts (i + 1) = Some k"
        "k = - 1 \<or> (i + 1 \<le> k \<and> k < int (length ts) \<and> P (ts ! nat k))"
        by auto
      with True t False show ?thesis by (auto simp add: find_from.simps [of P ts i])
    qed
  qed
qed

lemma find_back_total:
  "i < int (length ts) \<Longrightarrow>
     \<exists>k. find_back P ts i = Some k \<and> (k = - 1 \<or> (0 \<le> k \<and> k \<le> i \<and> P (ts ! nat k)))"
proof (induction P ts i rule: find_back.induct)
  case (1 P ts i)
  show ?case
  proof (cases "0 \<le> i")
    case False
    then show ?thesis by (simp add: find_back.simps [of P ts i])
  next
    case True
    with "1.prems" have t: "tok_at ts i = Some (ts ! nat i)" by simp
    show ?thesis
    proof (cases "P (ts ! nat i)")
      case True
      with \<open>0 \<le> i\<close> t show ?thesis by (simp add: find_back.simps [of P ts i])
    next
      case False
      from "1.IH" [OF True t False] "1.prems" obtain k where "find_back P ts (i - 1) = Some k"
        "k = - 1 \<or> (0 \<le> k \<and> k \<le> i - 1 \<and> P (ts ! nat k))"
        by auto
      with True t False show ?thesis by (auto simp add: find_back.simps [of P ts i])
    qed
  qed
qed

lemma find_back_absent:
  "\<forall>t \<in> set ts. \<not> P t \<Longrightarrow> i < int (length ts) \<Longrightarrow> find_back P ts i = Some (- 1)"
proof -
  assume a: "\<forall>t \<in> set ts. \<not> P t" and i: "i < int (length ts)"
  from find_back_total [OF i, of P] obtain k where
    k: "find_back P ts i = Some k" "k = - 1 \<or> (0 \<le> k \<and> k \<le> i \<and> P (ts ! nat k))"
    by blast
  have "k = - 1"
  proof (rule ccontr)
    assume "k \<noteq> - 1"
    with k have "0 \<le> k" "k \<le> i" "P (ts ! nat k)" by auto
    with i have "nat k < length ts" by linarith
    with a \<open>P (ts ! nat k)\<close> show False using nth_mem by blast
  qed
  with k show ?thesis by simp
qed


lemma find_main_from_total:
  "0 \<le> i \<Longrightarrow>
     \<exists>k. find_main_from ts i = Some k \<and> (k = - 1 \<or> (i \<le> k \<and> k < int (length ts) - 1))"
proof (induction "nat (int (length ts) - i)" arbitrary: i rule: less_induct)
  case less
  show ?case
  proof (cases "i < int (length ts) - 1")
    case False
    then show ?thesis by (simp add: find_main_from.simps [of ts i])
  next
    case True
    with less.prems have t: "tok_at ts i = Some (ts ! nat i)" by simp
    from scan_while_total [of "i + 1" is_ws ts] less.prems obtain j where
      j: "scan_while is_ws ts (i + 1) = Some j" "i + 1 \<le> j" by auto
    with less.prems have tj: "j < int (length ts) \<Longrightarrow> tok_at ts j = Some (ts ! nat j)" by simp
    from less.hyps [of "i + 1"] True less.prems obtain k where
      k: "find_main_from ts (i + 1) = Some k" "k = - 1 \<or> (i + 1 \<le> k \<and> k < int (length ts) - 1)"
      by auto
    show ?thesis
      using True t j tj k
      by (auto simp add: find_main_from.simps [of ts i])
  qed
qed

lemma find_main_total: "\<exists>k. find_main ts = Some k \<and> (k = - 1 \<or> (0 \<le> k \<and> k < int (length ts) - 1))"
  using find_main_from_total [of 0 ts] by (simp add: find_main_def)

lemma uv_loop_total: "0 \<le> i \<Longrightarrow> \<exists>v. uv_loop ts i = Some v"
proof (induction "nat (int (length ts) - i)" arbitrary: i rule: less_induct)
  case less
  show ?case
  proof (cases "i < int (length ts)")
    case False
    then show ?thesis by (simp add: uv_loop.simps [of ts i])
  next
    case True
    with less.prems have t: "tok_at ts i = Some (ts ! nat i)" by simp
    from less.hyps [of "i + 1"] True less.prems obtain v where "uv_loop ts (i + 1) = Some v"
      by auto
    with True t show ?thesis
      by (auto simp add: uv_loop.simps [of ts i])
  qed
qed

lemma value_at_total: "0 \<le> i \<Longrightarrow> \<exists>b. value_at v ts i = Some b"
  by (auto simp: value_at_def)



lemma location_loop_total: "0 \<le> i \<Longrightarrow> \<exists>v. location_loop ts i = Some v"
proof (induction "nat (int (length ts) - i)" arbitrary: i rule: less_induct)
  case less
  show ?case
  proof (cases "i < int (length ts)")
    case False
    then show ?thesis by (simp add: location_loop.simps [of ts i])
  next
    case True
    with less.prems have t: "tok_at ts i = Some (ts ! nat i)" by simp
    from scan_while_total [of "i + 1" "\<lambda>u. tok_value u \<noteq> S '')''" ts] less.prems obtain j where
      j: "scan_while (\<lambda>u. tok_value u \<noteq> S '')'') ts (i + 1) = Some j" "i + 1 \<le> j" by auto
    from scan_while_total [of "j + 1" is_ws ts] j less.prems obtain j' where
      j': "scan_while is_ws ts (j + 1) = Some j'" "j + 1 \<le> j'" by auto
    with j less.prems have tj: "j' < int (length ts) \<Longrightarrow> tok_at ts j' = Some (ts ! nat j')" by simp
    from less.hyps [of "i + 1"] True less.prems obtain v where "location_loop ts (i + 1) = Some v"
      by auto
    with True t j j' tj show ?thesis
      by (auto simp add: location_loop.simps [of ts i])
  qed
qed

lemma findUVName_total:
  assumes "0 \<le> mainIdx"
  shows "\<exists>r. findUVName tokens mainIdx = Some r \<and>
    (r \<noteq> None \<longrightarrow> (\<exists>a. find_from (has_value (S ''('')) tokens mainIdx = Some a \<and> mainIdx \<le> a \<and> a < int (length tokens)))"
proof -
  from find_from_total [OF assms, of "has_value (S ''('')" tokens] obtain a where
    a: "find_from (has_value (S ''('')) tokens mainIdx = Some a"
       "a = - 1 \<or> (mainIdx \<le> a \<and> a < int (length tokens) \<and> has_value (S ''('') (tokens ! nat a))"
    by blast
  show ?thesis
  proof (cases "a = - 1")
    case True
    with a show ?thesis by (simp add: findUVName_def)
  next
    case False
    with a assms have a0: "0 \<le> a" by auto
    from location_loop_total [OF a0, of tokens] obtain v where v: "location_loop tokens a = Some v" by blast
    from uv_loop_total [OF a0, of tokens] obtain w where w: "uv_loop tokens a = Some w" by blast
    from a False v w show ?thesis by (auto simp add: findUVName_def)
  qed
qed


section \<open>Anchor absence\<close>

lemma find_return_absent:
  assumes "\<forall>t \<in> set ts. \<not> (tok_type t = Ident \<and> tok_value t = S ''return'')"
  shows "find_return ts = Some (- 1)"
proof (cases "ts = []")
  case True
  then show ?thesis by (simp add: find_return_def find_back.simps [of _ "[]"])
next
  case False
  then have "int (length ts) - 1 < int (length ts)" by simp
  with assms show ?thesis
    unfolding find_return_def by (intro find_back_absent) (auto simp: is_ident_def)
qed

lemma mutateChaos_no_return:
  assumes "\<forall>t \<in> set ts. \<not> (tok_type t = Ident \<and> tok_value t = S ''return'')"
  shows "mutateChaos ts intensity g = Some (ts, g)"
  by (simp add: mutateChaos_def find_return_absent [OF assms])

lemma mutateStructure_no_return:
  assumes "\<forall>t \<in> set ts. \<not> (tok_type t = Ident \<and> tok_value t = S ''return'')"
  shows "mutateStructure ts intensity g = Some (ts, g)"
proof -
  from find_main_total [of ts] obtain k where
    k: "find_main ts = Some k" "k = - 1 \<or> (0 \<le> k \<and> k < int (length ts) - 1)" by blast
  show ?thesis
  proof (cases "k = - 1")
    case True
    with k show ?thesis by (simp add: mutateStructure_def)
  next
    case False
    with k have "0 \<le> k" by simp
    from findUVName_total [OF this, of ts] obtain r where "findUVName ts k = Some r" by blast
    with k False show ?thesis
      by (simp add: mutateStructure_def find_return_absent [OF assms] split: option.splits)
  qed
qed

text \<open>
  C4 (anchor-absence safety).  When no token of the sequence is the identifier \<open>return\<close>,
  the Chaos pass and the Structure pass both return the sequence they were given (and
  leave the random source untouched); for the tokens of a source text the serialized
  result is therefore the text itself.
\<close>

theorem anchor_absence_safety:
  assumes "\<forall>t \<in> set ts. \<not> (tok_type t = Ident \<and> tok_value t = S ''return'')"
  shows "mutateChaos ts intensity g = Some (ts, g)
       \<and> mutateStructure ts intensity g = Some (ts, g)
       \<and> (ts = tokenize T \<longrightarrow>
            map_option (serialize \<circ> fst) (mutateChaos ts intensity g) = Some T
          \<and> map_option (serialize \<circ> fst) (mutateStructure ts intensity g) = Some T)"
proof -
  have c: "mutateChaos ts intensity g = Some (ts, g)"
    by (rule mutateChaos_no_return [OF assms])
  have s: "mutateStructure ts intensity g = Some (ts, g)"
    by (rule mutateStructure_no_return [OF assms])
  show ?thesis
    using c s by (auto simp: tokenize_roundtrip)
qed

theorem anchor_absence_safety_witness:
  "mutateChaos [\<lparr>tok_type = Ident, tok_value = S ''x'', tok_index = 0\<rparr>] (Fin 1) (\<lambda>n. 0)
     = Some ([\<lparr>tok_type = Ident, tok_value = S ''x'', tok_index = 0\<rparr>], \<lambda>n. 0)
   \<and> mutateStructure [\<lparr>tok_type = Ident, tok_value = S ''x'', tok_index = 0\<rparr>] (Fin 1) (\<lambda>n. 0)
     = Some ([\<lparr>tok_type = Ident, tok_value = S ''x'', tok_index = 0\<rparr>], \<lambda>n. 0)"
  using anchor_absence_safety
    [of "[\<lparr>tok_type = Ident, tok_value = S ''x'', tok_index = 0\<rparr>]" "Fin 1" "\<lambda>n. 0" "S ''x''"]
  by (simp add: S_def)

section \<open>Rounding and array indices\<close>

lemma binade_bounds:
  assumes "0 < q"
  shows "2 powi binade q \<le> q \<and> q < 2 powi (binade q + 1)"
proof -
  obtain a b where ab: "quotient_of q = (a, b)" by (cases "quotient_of q")
  then have b: "0 < b" and q: "q = of_int a / of_int b"
    using quotient_of_denom_pos quotient_of_div by blast+
  with assms have a: "0 < a"
    by (simp add: zero_less_divide_iff)
  define la where "la = floorlog 2 (nat a)"
  define lb where "lb = floorlog 2 (nat b)"
  have la: "2 ^ (la - 1) \<le> nat a" "nat a < 2 ^ la" and lb: "2 ^ (lb - 1) \<le> nat b" "nat b < 2 ^ lb"
    using floorlog_bounds [of "nat a" 2] floorlog_bounds [of "nat b" 2] a b
    by (simp_all add: la_def lb_def)
  have la0: "0 < la" and lb0: "0 < lb"
    using a b by (simp_all add: la_def lb_def floorlog_def)
  have ra: "(2::rat) ^ (la - 1) \<le> of_int a" "(of_int a :: rat) < 2 ^ la"
    using la a
    by (metis numeral_power_le_of_int_cancel_iff numeral_power_le_nat_cancel_iff)
      (metis a la(2) nat_less_iff of_int_less_numeral_power_cancel_iff of_nat_numeral of_nat_power less_imp_le)
  have rb: "(2::rat) ^ (lb - 1) \<le> of_int b" "(of_int b :: rat) < 2 ^ lb"
    using lb b
    by (metis numeral_power_le_of_int_cancel_iff numeral_power_le_nat_cancel_iff)
      (metis b lb(2) nat_less_iff of_int_less_numeral_power_cancel_iff of_nat_numeral of_nat_power less_imp_le)
  have pw: "(2::rat) ^ n = 2 powi int n" for n
    by simp
  have pm: "(2::rat) ^ (n - 1) = 2 powi (int n - 1)" if "0 < n" for n
    using that by (metis int_ops(6) less_not_refl less_one nat_int of_nat_1 power_int_of_nat zless_nat_eq_int_zless)
  have bpos: "(0::rat) < of_int b" and apos: "(0::rat) < of_int a" using a b by simp_all
  have "of_int a / of_int b < (2::rat) ^ la / 2 ^ (lb - 1)"
    using ra rb bpos apos by (intro frac_less) simp_all
  then have "q < 2 powi int la / 2 powi (int lb - 1)"
    by (simp only: q pw [of la] pm [OF lb0])
  also have "\<dots> = 2 powi (int la - (int lb - 1))"
    by (rule power_int_diff [symmetric]) simp
  also have "int la - (int lb - 1) = int la - int lb + 1"
    by simp
  finally have up: "q < 2 powi (int la - int lb + 1)" .
  have "(2::rat) ^ (la - 1) / 2 ^ lb < of_int a / of_int b"
    using ra rb bpos apos by (intro frac_less2) simp_all
  then have "2 powi (int la - 1) / 2 powi int lb < q"
    by (simp only: q pw [of lb] pm [OF la0])
  moreover have "(2::rat) powi (int la - 1) / 2 powi int lb = 2 powi (int la - 1 - int lb)"
    by (rule power_int_diff [symmetric]) simp
  moreover have "int la - 1 - int lb = int la - int lb - 1"
    by simp
  ultimately have lo: "2 powi (int la - int lb - 1) < q"
    by simp
  show ?thesis
    using up lo ab by (auto simp: binade_def Let_def la_def lb_def)
qed

lemma round_half_even_upper: "of_int (round_half_even y) \<le> y + 1 / 2"
proof -
  have f: "of_int \<lfloor>y\<rfloor> \<le> y" by simp
  show ?thesis
  proof (cases "y - of_int \<lfloor>y\<rfloor> < 1 / 2")
    case True
    then have "of_int (round_half_even y) = (of_int \<lfloor>y\<rfloor> :: rat)"
      by (simp add: round_half_even_def Let_def)
    with f show ?thesis by linarith
  next
    case False
    then have "of_int (round_half_even y) \<le> (of_int \<lfloor>y\<rfloor> :: rat) + 1"
      by (simp add: round_half_even_def Let_def)
    with False show ?thesis by linarith
  qed
qed

lemma round_half_even_nonneg: "0 \<le> y \<Longrightarrow> 0 \<le> round_half_even y"
  unfolding round_half_even_def Let_def by simp

lemma fl_mul_index:
  assumes r: "0 \<le> r" "r \<le> 1 - 1 / 2 ^ 53" and n: "0 < n" "n \<le> 2 ^ 53"
  shows "\<exists>y. fl (r * of_nat n) = Fin y \<and> 0 \<le> y \<and> y < of_nat n"
proof (cases "r = 0")
  case True
  with n show ?thesis by (simp add: fl_def)
next
  case False
  define x where "x = r * of_nat n"
  define N :: rat where "N = of_nat n"
  have "(of_nat n :: rat) \<le> of_nat (2 ^ 53)"
    using n(2) by (rule iffD2 [OF of_nat_le_iff])
  moreover have "(1::rat) \<le> of_nat n"
    using n(1) by (cases n) simp_all
  ultimately have N: "1 \<le> N" "N \<le> 2 ^ 53"
    by (simp_all add: N_def)
  from False r n have x0: "0 < x" by (simp add: x_def)
  have "x \<le> (1 - 1 / 2 ^ 53) * N"
    unfolding x_def N_def using r(2) n(1) by (intro mult_right_mono) simp_all
  then have xn: "x \<le> N - N / 2 ^ 53"
    by (simp add: algebra_simps)
  note xn
  moreover have "0 < N / 2 ^ 53" using N(1) by simp
  ultimately have xN: "x < N" by linarith
  define e where "e = max (binade x) (- 1022)"
  define ulp :: rat where "ulp = 2 powi (e - 52)"
  define m where "m = of_int (round_half_even (x / ulp)) * ulp"
  have ulp0: "0 < ulp" by (simp add: ulp_def)
  have "2 powi binade x < N"
    using binade_bounds [OF x0] xN by simp
  moreover have "(2::rat) powi (- 1022) < N"
  proof -
    have "(2::rat) powi (- 1022) < 2 powi 0"
      by (rule power_int_strict_increasing) simp_all
    with N(1) show ?thesis by simp
  qed
  ultimately have eN: "2 powi e < N"
    by (simp add: e_def max_def)
  have "ulp = 2 powi e / 2 ^ 52"
    unfolding ulp_def by (simp add: power_int_diff)
  with eN have half: "ulp / 2 < N / 2 ^ 53"
    by (simp add: field_simps)
  have "m \<le> (x / ulp + 1 / 2) * ulp"
    unfolding m_def using round_half_even_upper [of "x / ulp"] ulp0 by (simp add: mult_right_mono)
  also have "\<dots> = x + ulp / 2" using ulp0 by (simp add: field_simps)
  also have "\<dots> < N" using half xn by simp
  finally have mN: "m < N" .
  have m0: "0 \<le> m"
    unfolding m_def using round_half_even_nonneg [of "x / ulp"] ulp0 x0 by simp
  have big: "(2::rat) ^ 53 < 2 powi 1024" by simp
  have flx: "fl x = (if 2 powi 1024 \<le> m then PosInf else Fin m)"
    using x0 by (simp add: fl_def Let_def m_def ulp_def e_def)
  from mN N(2) big have "\<not> 2 powi 1024 \<le> m" by linarith
  with flx have "fl x = Fin m" by simp
  with m0 mN show ?thesis
    unfolding x_def N_def by blast
qed


section \<open>Drawing from the random source\<close>

lemma random_eq: "random g = (Fin (g 0), \<lambda>n. g (Suc n))"
  by (simp add: random_def)

lemma rng_ok_tail: "rng_ok g \<Longrightarrow> rng_ok (\<lambda>n. g (Suc n))"
  by (simp add: rng_ok_def)

lemma rng_ok_random: "rng_ok g \<Longrightarrow> rng_ok (snd (random g))"
  by (simp add: random_eq rng_ok_tail)

lemma snd_randFloat: "snd (randFloat lo hi g) = snd (random g)"
  by (simp add: randFloat_def random_eq)

lemma snd_getRandomItem: "snd (getRandomItem arr g) = snd (random g)"
  by (simp add: getRandomItem_def random_eq)

lemma index_of_draw:
  assumes g: "rng_ok g" and n: "0 < n" "n \<le> length arr" "n \<le> 2 ^ 53"
  shows "\<exists>j < n. index_of arr (math_floor (js_mul (fst (random g)) (Fin (of_nat n)))) = Some j"
proof -
  from g have r: "0 \<le> g 0" "g 0 \<le> 1 - 1 / 2 ^ 53" by (simp_all add: rng_ok_def)
  from fl_mul_index [OF r n(1) n(3)] obtain y where
    y: "fl (g 0 * of_nat n) = Fin y" "0 \<le> y" "y < of_nat n" by blast
  have fy: "0 \<le> \<lfloor>y\<rfloor>" "\<lfloor>y\<rfloor> < int n"
    using y by (simp_all add: floor_less_iff)
  then have "nat \<lfloor>y\<rfloor> < n" by linarith
  moreover have "(of_int \<lfloor>y\<rfloor> :: rat) < of_nat (length arr)"
    using fy n(2) by (metis less_le_trans of_int_of_nat_eq of_int_less_iff of_nat_le_iff)
  ultimately show ?thesis
    using y fy by (auto simp: random_eq math_floor_def index_of_def)
qed

lemma getRandomItem_total:
  assumes g: "rng_ok g" and n: "arr \<noteq> []" "length arr \<le> 2 ^ 53"
  shows "\<exists>x \<in> set arr. getRandomItem arr g = (Some x, snd (random g))"
proof -
  from n have "0 < length arr" by simp
  from index_of_draw [OF g this le_refl n(2)] obtain j where
    j: "j < length arr"
       "index_of arr (math_floor (js_mul (fst (random g)) (Fin (of_nat (length arr))))) = Some j"
    by blast
  have "elem_at arr v = map_option (nth arr) (index_of arr v)" for v
    by (simp add: elem_at_def index_of_def split: jsnum.splits)
  with j show ?thesis
    by (auto simp: getRandomItem_def random_eq)
qed

section \<open>The shuffle\<close>

lemma shuffle_loop_perm:
  assumes "rng_ok g" "i < length arr \<or> i = 0" "length arr \<le> 2 ^ 53"
  shows "\<exists>arr' g'. shuffle_loop arr i g = Some (arr', g') \<and> mset arr' = mset arr \<and> rng_ok g'"
  using assms
proof (induction i arbitrary: arr g)
  case 0
  then show ?case by (simp add: shuffle_loop.simps [of arr 0])
next
  case (Suc i)
  then have i: "Suc i < length arr" by simp
  with Suc.prems have "Suc i + 1 \<le> length arr" "Suc i + 1 \<le> 2 ^ 53" by simp_all
  from index_of_draw [OF Suc.prems(1) _ this] obtain j where
    j: "j < Suc i + 1"
       "index_of arr (math_floor (js_mul (fst (random g)) (Fin (of_nat (Suc i + 1))))) = Some j"
    by auto
  define arr1 where "arr1 = arr[Suc i := arr ! j, j := arr ! Suc i]"
  from i j have m: "mset arr1 = mset arr" and l: "length arr1 = length arr"
    by (simp_all add: arr1_def mset_swap)
  from Suc.IH [of "snd (random g)" arr1] Suc.prems i l obtain arr' g' where
    "shuffle_loop arr1 i (snd (random g)) = Some (arr', g')" "mset arr' = mset arr1" "rng_ok g'"
    by (auto simp: rng_ok_random)
  with j m show ?case
    by (cases "random g") (simp add: shuffle_loop.simps [of arr "Suc i"] arr1_def)
qed

lemma shuffleString_perm:
  assumes "rng_ok g" "length str \<le> 2 ^ 53"
  shows "\<exists>v g'. shuffleString str g = Some (v, g') \<and> mset v = mset str \<and> rng_ok g'"
  unfolding shuffleString_def
  using assms by (intro shuffle_loop_perm) auto


section \<open>The expression synthesizer returns\<close>

lemma scalar_terminal_total:
  assumes "rng_ok g"
  shows "\<exists>s g'. scalar_terminal uvName g = Some (s, g') \<and> rng_ok g'"
proof -
  obtain f g1 where f: "randFloat (lit (1 / 10)) (lit 5) g = (f, g1)"
    by (cases "randFloat (lit (1 / 10)) (lit 5) g")
  with assms have g1: "rng_ok g1"
    using snd_randFloat [of "lit (1 / 10)" "lit 5" g] by (simp add: rng_ok_random)
  let ?terms = "[uvName @ S ''.x'', uvName @ S ''.y'', S ''length('' @ uvName @ S '' - 0.5)'',
             S ''time'', toFixed 2 f, S ''f_hash('' @ uvName @ S '')'',
             S ''f_n('' @ uvName @ S ''.x * 10.0)'']"
  from getRandomItem_total [OF g1, of ?terms] obtain x where
    "getRandomItem ?terms g1 = (Some x, snd (random g1))" by auto
  with f g1 show ?thesis
    by (simp add: scalar_terminal_def rng_ok_random)
qed

definition calls_bound :: "int \<Rightarrow> nat" where
  "calls_bound depth = 2 ^ (nat depth + 1) - 2"

lemma calls_bound_step:
  assumes "0 < depth" "c1 \<le> calls_bound (depth - 1)" "c2 \<le> calls_bound (depth - 1)"
  shows "c1 + c2 + 2 \<le> calls_bound depth" "c1 + 1 \<le> calls_bound depth"
proof -
  define p where "p = (2::nat) ^ nat (depth - 1)"
  from assms(1) have n: "nat depth = Suc (nat (depth - 1))" by simp
  have p: "1 \<le> p" by (simp add: p_def)
  have b: "calls_bound (depth - 1) = 2 * p - 2" "calls_bound depth = 4 * p - 2"
    by (simp_all add: calls_bound_def n p_def)
  from assms(2,3) p show "c1 + c2 + 2 \<le> calls_bound depth" "c1 + 1 \<le> calls_bound depth"
    unfolding b by linarith+
qed

lemma generateScalarExpr_calls_total:
  assumes "rng_ok g"
  shows "\<exists>s c g'. generateScalarExpr_calls depth uvName g = Some (s, c, g')
           \<and> c \<le> calls_bound depth \<and> rng_ok g'"
  using assms
proof (induction "nat depth" arbitrary: depth g)
  case 0
  then have d: "depth \<le> 0" by simp
  from scalar_terminal_total [OF "0.prems"] obtain s g' where
    "scalar_terminal uvName g = Some (s, g')" "rng_ok g'" by blast
  with d show ?case
    by (simp add: generateScalarExpr_calls.simps [of depth uvName g])
next
  case (Suc n)
  then have d: "0 < depth" and n: "n = nat (depth - 1)" by simp_all
  note ih = Suc.hyps(1) [OF n]
  note step = calls_bound_step [OF d]
  obtain r g0 where r: "random g = (r, g0)" by (cases "random g")
  with Suc.prems have g0: "rng_ok g0" using rng_ok_random [of g] by simp
  obtain rnd g1 where rnd: "random g0 = (rnd, g1)" by (cases "random g0")
  with g0 have g1: "rng_ok g1" using rng_ok_random [of g0] by simp
  obtain ty g2 where ty: "random g1 = (ty, g2)" by (cases "random g1")
  with g1 have g2: "rng_ok g2" using rng_ok_random [of g1] by simp
  consider (stop) "js_lt r (lit (15 / 100))"
    | (unary) "\<not> js_lt r (lit (15 / 100))" "js_lt rnd (lit (35 / 100))"
    | (binary) "\<not> js_lt r (lit (15 / 100))" "\<not> js_lt rnd (lit (35 / 100))" "js_lt rnd (lit (7 / 10))"
    | (mix) "\<not> js_lt r (lit (15 / 100))" "\<not> js_lt rnd (lit (35 / 100))" "\<not> js_lt rnd (lit (7 / 10))"
        "js_lt ty (lit (33 / 100))"
    | (smooth) "\<not> js_lt r (lit (15 / 100))" "\<not> js_lt rnd (lit (35 / 100))" "\<not> js_lt rnd (lit (7 / 10))"
        "\<not> js_lt ty (lit (33 / 100))" "js_lt ty (lit (66 / 100))"
    | (smin) "\<not> js_lt r (lit (15 / 100))" "\<not> js_lt rnd (lit (35 / 100))" "\<not> js_lt rnd (lit (7 / 10))"
        "\<not> js_lt ty (lit (33 / 100))" "\<not> js_lt ty (lit (66 / 100))"
    by blast
  then show ?case
  proof cases
    case stop
    from scalar_terminal_total [OF g0] obtain s g' where
      "scalar_terminal uvName g0 = Some (s, g')" "rng_ok g'" by blast
    with d r stop show ?thesis
      by (simp add: generateScalarExpr_calls.simps [of depth uvName g])
  next
    case unary
    from getRandomItem_total [OF g1, of unary_funcs] obtain f where
      f: "getRandomItem unary_funcs g1 = (Some f, g2)"
      using ty by (auto simp: unary_funcs_def)
    from ih [OF g2] obtain s c g3 where
      "generateScalarExpr_calls (depth - 1) uvName g2 = Some (s, c, g3)"
      "c \<le> calls_bound (depth - 1)" "rng_ok g3" by blast
    with d r rnd unary f step(2) [of c c] show ?thesis
      by (simp add: generateScalarExpr_calls.simps [of depth uvName g])
  next
    case binary
    from getRandomItem_total [OF g1, of binary_ops] obtain op where
      op: "getRandomItem binary_ops g1 = (Some op, g2)"
      using ty by (auto simp: binary_ops_def)
    from ih [OF g2] obtain a c1 g3 where
      a: "generateScalarExpr_calls (depth - 1) uvName g2 = Some (a, c1, g3)"
      "c1 \<le> calls_bound (depth - 1)" "rng_ok g3" by blast
    from ih [OF a(3)] obtain b c2 g4 where
      "generateScalarExpr_calls (depth - 1) uvName g3 = Some (b, c2, g4)"
      "c2 \<le> calls_bound (depth - 1)" "rng_ok g4" by blast
    with d r rnd binary op a step(1) [of c1 c2] show ?thesis
      by (simp add: generateScalarExpr_calls.simps [of depth uvName g])
  next
    case mix
    from ih [OF g2] obtain a c1 g3 where
      a: "generateScalarExpr_calls (depth - 1) uvName g2 = Some (a, c1, g3)"
      "c1 \<le> calls_bound (depth - 1)" "rng_ok g3" by blast
    from ih [OF a(3)] obtain b c2 g4 where
      b: "generateScalarExpr_calls (depth - 1) uvName g3 = Some (b, c2, g4)"
      "c2 \<le> calls_bound (depth - 1)" "rng_ok g4" by blast
    obtain f g5 where f: "randFloat (lit 0) (lit 1) g4 = (f, g5)"
      by (cases "randFloat (lit 0) (lit 1) g4")
    with b(3) have "rng_ok g5"
      using snd_randFloat [of "lit 0" "lit 1" g4] by (simp add: rng_ok_random)
    with d r rnd ty mix a b f step(1) [of c1 c2] show ?thesis
      by (simp add: generateScalarExpr_calls.simps [of depth uvName g])
  next
    case smooth
    from ih [OF g2] obtain s c g3 where
      "generateScalarExpr_calls (depth - 1) uvName g2 = Some (s, c, g3)"
      "c \<le> calls_bound (depth - 1)" "rng_ok g3" by blast
    with d r rnd ty smooth step(2) [of c c] show ?thesis
      by (simp add: generateScalarExpr_calls.simps [of depth uvName g])
  next
    case smin
    from ih [OF g2] obtain a c1 g3 where
      a: "generateScalarExpr_calls (depth - 1) uvName g2 = Some (a, c1, g3)"
      "c1 \<le> calls_bound (depth - 1)" "rng_ok g3" by blast
    from ih [OF a(3)] obtain b c2 g4 where
      "generateScalarExpr_calls (depth - 1) uvName g3 = Some (b, c2, g4)"
      "c2 \<le> calls_bound (depth - 1)" "rng_ok g4" by blast
    with d r rnd ty smin a step(1) [of c1 c2] show ?thesis
      by (simp add: generateScalarExpr_calls.simps [of depth uvName g])
  qed
qed



text \<open>
  C9 (termination bound).  For every depth, every name and every random source within
  the contract of \<open>Math.random\<close>, \<open>generateScalarExpr\<close> returns a text, and the number of
  recursive calls made on the way is at most \<open>2 ^ (depth + 1) - 2\<close> (none for a depth of
  zero or less): a bound in the depth alone.
\<close>

theorem generateScalarExpr_termination_bound:
  assumes "rng_ok g"
  shows "\<exists>s c g'. generateScalarExpr_calls depth uvName g = Some (s, c, g')
           \<and> generateScalarExpr depth uvName g = Some (s, g')
           \<and> c \<le> 2 ^ (nat depth + 1) - 2"
  using generateScalarExpr_calls_total [OF assms, of depth uvName]
  by (auto simp: generateScalarExpr_def calls_bound_def)

theorem generateScalarExpr_termination_bound_witness:
  "\<exists>s c g'. generateScalarExpr_calls 4 (S ''uv'') (\<lambda>n. 0) = Some (s, c, g')
      \<and> generateScalarExpr 4 (S ''uv'') (\<lambda>n. 0) = Some (s, g')
      \<and> c \<le> 2 ^ (nat 4 + 1) - 2"
  using generateScalarExpr_termination_bound [of "\<lambda>n. 0" 4 "S ''uv''"]
  by (simp add: rng_ok_def)

section \<open>The passes that rewrite token texts in place\<close>

text \<open>The kind and the source offset of every token, in order.\<close>

definition frame :: "Token list \<Rightarrow> (TokenType \<times> int) list" where
  "frame ts = map (\<lambda>t. (tok_type t, tok_index t)) ts"

lemma frame_length: "frame ts' = frame ts \<Longrightarrow> length ts' = length ts"
  by (metis frame_def length_map)

lemma frame_nth:
  "frame ts' = frame ts \<Longrightarrow> i < length ts \<Longrightarrow>
     tok_type (ts' ! i) = tok_type (ts ! i) \<and> tok_index (ts' ! i) = tok_index (ts ! i)"
  by (metis (mono_tags, lifting) frame_def frame_length nth_map prod.inject)

lemma frame_update:
  "tok_at nts i = Some t \<Longrightarrow> frame (nts[nat i := t\<lparr>tok_value := v\<rparr>]) = frame nts"
  by (auto simp: tok_at_def frame_def map_update list_update_same_conv split: if_splits)

lemma map_tokens_frame:
  assumes step: "\<And>t g. rng_ok g \<Longrightarrow>
      \<exists>t' g'. f t g = Some (t', g') \<and> tok_type t' = tok_type t \<and> tok_index t' = tok_index t
        \<and> rng_ok g'"
    and "rng_ok g"
  shows "\<exists>ts' g'. map_tokens f ts g = Some (ts', g') \<and> frame ts' = frame ts \<and> rng_ok g'"
  using \<open>rng_ok g\<close>
proof (induction ts arbitrary: g)
  case Nil
  then show ?case by (simp add: frame_def)
next
  case (Cons t ts)
  from step [OF Cons.prems, of t] obtain t' g1 where
    t': "f t g = Some (t', g1)" "tok_type t' = tok_type t" "tok_index t' = tok_index t" "rng_ok g1"
    by blast
  from Cons.IH [OF t'(4)] obtain ts' g2 where
    "map_tokens f ts g1 = Some (ts', g2)" "frame ts' = frame ts" "rng_ok g2" by blast
  with t' show ?case by (simp add: frame_def)
qed


lemma mutate_number_frame:
  "\<exists>t' g'. mutate_number intensity t g = Some (t', g') \<and> tok_type t' = tok_type t
     \<and> tok_index t' = tok_index t \<and> (rng_ok g \<longrightarrow> rng_ok g')"
  by (auto simp: mutate_number_def perturb_number_def Let_def random_eq rng_ok_def
      split: prod.splits)

lemma mutate_operator_frame:
  assumes "rng_ok g"
  shows "\<exists>t' g'. mutate_operator intensity t g = Some (t', g') \<and> tok_type t' = tok_type t
     \<and> tok_index t' = tok_index t \<and> rng_ok g'"
proof -
  obtain r g1 where r: "random g = (r, g1)" by (cases "random g")
  with assms have g1: "rng_ok g1" using rng_ok_random [of g] by simp
  from getRandomItem_total [OF g1, of OPS] obtain v where
    "getRandomItem OPS g1 = (Some v, snd (random g1))" by (auto simp: OPS_def)
  with r g1 assms show ?thesis
    by (auto simp: mutate_operator_def rng_ok_random)
qed

lemma mutate_builtin_frame:
  assumes "rng_ok g"
  shows "\<exists>t' g'. mutate_builtin intensity t g = Some (t', g') \<and> tok_type t' = tok_type t
     \<and> tok_index t' = tok_index t \<and> rng_ok g'"
proof -
  obtain r g1 where r: "random g = (r, g1)" by (cases "random g")
  with assms have g1: "rng_ok g1" using rng_ok_random [of g] by simp
  from getRandomItem_total [OF g1, of SAFE_BUILTINS] obtain v where
    "getRandomItem SAFE_BUILTINS g1 = (Some v, snd (random g1))" by (auto simp: SAFE_BUILTINS_def)
  with r g1 assms show ?thesis
    by (auto simp: mutate_builtin_def rng_ok_random)
qed

lemma mutateNumbers_frame:
  assumes "rng_ok g"
  shows "\<exists>ts' g'. mutateNumbers ts intensity g = Some (ts', g') \<and> frame ts' = frame ts \<and> rng_ok g'"
  unfolding mutateNumbers_def
  using mutate_number_frame by (intro map_tokens_frame [OF _ assms]) blast

lemma mutateOperators_frame:
  assumes "rng_ok g"
  shows "\<exists>ts' g'. mutateOperators ts intensity g = Some (ts', g') \<and> frame ts' = frame ts \<and> rng_ok g'"
  unfolding mutateOperators_def
  by (intro map_tokens_frame [OF _ assms] mutate_operator_frame)

lemma mutateBuiltins_frame:
  assumes "rng_ok g"
  shows "\<exists>ts' g'. mutateBuiltins ts intensity g = Some (ts', g') \<and> frame ts' = frame ts \<and> rng_ok g'"
  unfolding mutateBuiltins_def
  by (intro map_tokens_frame [OF _ assms] mutate_builtin_frame)


lemma color_arg_frame:
  assumes "rng_ok g" "0 \<le> j" "j < int (length nts)"
  shows "\<exists>nts' b' g'. color_arg intensity nts j balance g = Some (nts', b', g')
           \<and> frame nts' = frame nts \<and> rng_ok g'"
proof -
  from assms have t: "tok_at nts j = Some (nts ! nat j)" by simp
  from assms(1) have "rng_ok (snd (random g))" "rng_ok (snd (random (snd (random g))))"
    by (simp_all add: rng_ok_random)
  with t assms(1) show ?thesis
    by (auto simp: color_arg_def Let_def frame_update split: prod.splits)
qed

lemma color_args_frame:
  assumes "rng_ok g" "0 \<le> j"
  shows "\<exists>nts' g'. color_args intensity nts j balance g = Some (nts', g')
           \<and> frame nts' = frame nts \<and> rng_ok g'"
  using assms
proof (induction "nat (int (length nts) - j)" arbitrary: nts j balance g rule: less_induct)
  case less
  show ?case
  proof (cases "j < int (length nts) \<and> 0 < balance")
    case False
    with less.prems show ?thesis
      by (auto simp: color_args.simps [of intensity nts j])
  next
    case True
    then have "j < int (length nts)" by simp
    from color_arg_frame [OF less.prems this, of intensity balance] obtain n1 b1 g1 where
      a: "color_arg intensity nts j balance g = Some (n1, b1, g1)" "frame n1 = frame nts" "rng_ok g1"
      by blast
    from a(2) have l: "length n1 = length nts" by (rule frame_length)
    from less.hyps [of n1 "j + 1" g1 b1] True l a(3) less.prems(2) obtain n2 g2 where
      "color_args intensity n1 (j + 1) b1 g1 = Some (n2, g2)" "frame n2 = frame n1" "rng_ok g2"
      by auto
    with True a show ?thesis
      by (simp add: color_args.simps [of intensity nts j])
  qed
qed

lemma color_ptr_total: "0 \<le> i \<Longrightarrow> \<exists>p. color_ptr nts i = Some p \<and> 0 \<le> p"
proof -
  assume i: "0 \<le> i"
  from scan_while_total [of "i + 1" is_ws nts] i obtain p where
    p: "scan_while is_ws nts (i + 1) = Some p" "i + 1 \<le> p" by auto
  with i have p0: "0 \<le> p" by simp
  from value_at_total [OF p0] obtain b where b: "value_at (S ''<'') nts p = Some b" by blast
  from scan_while_total [OF p0, of "\<lambda>u. tok_value u \<noteq> S ''>''" nts] obtain q where
    q: "scan_while (\<lambda>u. tok_value u \<noteq> S ''>'') nts p = Some q" "p \<le> q" by blast
  from scan_while_total [of "q + 1" is_ws nts] q p0 obtain q' where
    "scan_while is_ws nts (q + 1) = Some q'" "q + 1 \<le> q'" by auto
  with p p0 b q show ?thesis
    by (auto simp: color_ptr_def)
qed

lemma color_body_frame:
  assumes "rng_ok g" "0 \<le> i" "i < int (length nts)"
  shows "\<exists>nts' g'. color_body intensity nts i g = Some (nts', g')
           \<and> frame nts' = frame nts \<and> rng_ok g'"
proof -
  from assms have t: "tok_at nts i = Some (nts ! nat i)" by simp
  from color_ptr_total [OF assms(2)] obtain p where p: "color_ptr nts i = Some p" "0 \<le> p"
    by blast
  from value_at_total [OF p(2)] obtain b where b: "value_at (S ''('') nts p = Some b" by blast
  from color_args_frame [OF assms(1), of "p + 1" intensity nts 1] p(2) obtain n1 g1 where
    "color_args intensity nts (p + 1) 1 g = Some (n1, g1)" "frame n1 = frame nts" "rng_ok g1"
    by auto
  with t p b assms(1) show ?thesis
    by (auto simp: color_body_def)
qed

lemma color_loop_frame:
  assumes "rng_ok g" "0 \<le> i"
  shows "\<exists>nts' g'. color_loop intensity nts i g = Some (nts', g')
           \<and> frame nts' = frame nts \<and> rng_ok g'"
  using assms
proof (induction "nat (int (length nts) - i)" arbitrary: nts i g rule: less_induct)
  case less
  show ?case
  proof (cases "i < int (length nts)")
    case False
    with less.prems show ?thesis
      by (simp add: color_loop.simps [of intensity nts i])
  next
    case True
    from color_body_frame [OF less.prems True, of intensity] obtain n1 g1 where
      a: "color_body intensity nts i g = Some (n1, g1)" "frame n1 = frame nts" "rng_ok g1"
      by blast
    from a(2) have l: "length n1 = length nts" by (rule frame_length)
    from less.hyps [of n1 "i + 1" g1] True l a(3) less.prems(2) obtain n2 g2 where
      "color_loop intensity n1 (i + 1) g1 = Some (n2, g2)" "frame n2 = frame n1" "rng_ok g2"
      by auto
    with True a show ?thesis
      by (simp add: color_loop.simps [of intensity nts i])
  qed
qed

lemma mutateColor_frame:
  assumes "rng_ok g"
  shows "\<exists>ts' g'. mutateColor ts intensity g = Some (ts', g') \<and> frame ts' = frame ts \<and> rng_ok g'"
  unfolding mutateColor_def by (rule color_loop_frame [OF assms]) simp


section \<open>What the Swizzle pass changes\<close>

text \<open>
  A swizzle site is a position whose token is an identifier of two to four letters from
  \<open>xyzrgba\<close> and stands directly after a punctuation token \<open>.\<close>.
\<close>

definition swizzle_site :: "Token list \<Rightarrow> nat \<Rightarrow> bool" where
  "swizzle_site ts j =
     (0 < j \<and> j < length ts
      \<and> tok_value (ts ! (j - 1)) = S ''.'' \<and> tok_type (ts ! (j - 1)) = Punct
      \<and> tok_type (ts ! j) = Ident \<and> is_swizzle (tok_value (ts ! j)))"

text \<open>
  \<open>permuted_at ts out j\<close>: the token at \<open>j\<close> is the old one, or \<open>j\<close> is a swizzle site and
  the token is the old one with its letters permuted.
\<close>

definition permuted_at :: "Token list \<Rightarrow> Token list \<Rightarrow> nat \<Rightarrow> bool" where
  "permuted_at ts out j =
     (out ! j = ts ! j
      \<or> (swizzle_site ts j
          \<and> (\<exists>v. mset v = mset (tok_value (ts ! j)) \<and> out ! j = (ts ! j)\<lparr>tok_value := v\<rparr>)))"

definition swizzled :: "Token list \<Rightarrow> Token list \<Rightarrow> bool" where
  "swizzled ts out = (length out = length ts \<and> (\<forall>j < length ts. permuted_at ts out j))"

lemma swizzled_refl: "swizzled ts ts"
  by (simp add: swizzled_def permuted_at_def)

lemma is_swizzle_length: "is_swizzle v \<Longrightarrow> length v \<le> 2 ^ 53"
  by (simp add: is_swizzle_def)

lemma swizzle_body_spec:
  assumes g: "rng_ok g" and i: "0 \<le> i" "i < int (length nts) - 1"
    and sw: "swizzled ts nts"
    and rest: "\<forall>j. i < int j \<longrightarrow> j < length ts \<longrightarrow> nts ! j = ts ! j"
  shows "\<exists>n1 g1. swizzle_body intensity nts i g = Some (n1, g1) \<and> swizzled ts n1
           \<and> (\<forall>j. i + 1 < int j \<longrightarrow> j < length ts \<longrightarrow> n1 ! j = ts ! j) \<and> rng_ok g1"
proof -
  from sw have len: "length nts = length ts" by (simp add: swizzled_def)
  from i have t: "tok_at nts i = Some (nts ! nat i)"
    and n: "tok_at nts (i + 1) = Some (nts ! nat (i + 1))" by simp_all
  from i len have ni: "nat i < length ts" "nat (i + 1) < length ts" "nat (i + 1) = Suc (nat i)"
    by linarith+
  from rest ni i have next_eq: "nts ! nat (i + 1) = ts ! nat (i + 1)" by simp
  let ?t = "nts ! nat i" and ?next = "ts ! nat (i + 1)"
  show ?thesis
  proof (cases "tok_value ?t = S ''.'' \<and> tok_type ?t = Punct
                \<and> tok_type ?next = Ident \<and> is_swizzle (tok_value ?next)
                \<and> js_lt (fst (random g)) intensity")
    case False
    with t n next_eq g sw rest show ?thesis
      by (cases "random g") (auto simp: swizzle_body_def rng_ok_random dest: rng_ok_random)
  next
    case True
    from sw ni have "permuted_at ts nts (nat i)" by (simp add: swizzled_def)
    with True have ti: "ts ! nat i = nts ! nat i"
      by (auto simp: permuted_at_def swizzle_site_def)
    obtain r g1 where r: "random g = (r, g1)" by (cases "random g")
    with g have g1: "rng_ok g1" using rng_ok_random [of g] by simp
    from True have "is_swizzle (tok_value ?next)" by simp
    then have "length (tok_value ?next) \<le> 2 ^ 53" by (rule is_swizzle_length)
    from shuffleString_perm [OF g1 this] obtain v g2 where
      v: "shuffleString (tok_value ?next) g1 = Some (v, g2)" "mset v = mset (tok_value ?next)"
        "rng_ok g2" by blast
    define n1 where "n1 = nts[nat (i + 1) := ?next\<lparr>tok_value := v\<rparr>]"
    have body: "swizzle_body intensity nts i g = Some (n1, g2)"
      using True t n next_eq r v by (simp add: swizzle_body_def n1_def)
    have site: "swizzle_site ts (nat (i + 1))"
      using True ti ni by (simp add: swizzle_site_def)
    have "permuted_at ts n1 j" if "j < length ts" for j
    proof (cases "j = nat (i + 1)")
      case True
      with site v(2) ni len show ?thesis
        by (auto simp: permuted_at_def n1_def)
    next
      case False
      with sw that show ?thesis
        by (simp add: swizzled_def permuted_at_def n1_def)
    qed
    then have "swizzled ts n1" using len by (simp add: swizzled_def n1_def)
    moreover have "n1 ! j = ts ! j" if "i + 1 < int j" "j < length ts" for j
    proof -
      from that i have "j \<noteq> nat (i + 1)" "i < int j" by linarith+
      with rest that show ?thesis by (simp add: n1_def)
    qed
    ultimately show ?thesis using body v(3) by blast
  qed
qed

lemma swizzle_loop_spec:
  assumes "rng_ok g" "0 \<le> i" "swizzled ts nts"
    "\<forall>j. i < int j \<longrightarrow> j < length ts \<longrightarrow> nts ! j = ts ! j"
  shows "\<exists>out g'. swizzle_loop intensity nts i g = Some (out, g') \<and> swizzled ts out \<and> rng_ok g'"
  using assms
proof (induction "nat (int (length nts) - i)" arbitrary: nts i g rule: less_induct)
  case less
  show ?case
  proof (cases "i < int (length nts) - 1")
    case False
    with less.prems show ?thesis
      by (auto simp: swizzle_loop.simps [of intensity nts i])
  next
    case True
    from swizzle_body_spec [OF less.prems(1,2) True less.prems(3,4), of intensity] obtain n1 g1 where
      a: "swizzle_body intensity nts i g = Some (n1, g1)" "swizzled ts n1"
         "\<forall>j. i + 1 < int j \<longrightarrow> j < length ts \<longrightarrow> n1 ! j = ts ! j" "rng_ok g1"
      by blast
    from a(2) less.prems(3) have l: "length n1 = length nts" by (simp add: swizzled_def)
    from less.hyps [of n1 "i + 1" g1] True l a less.prems(2) obtain n2 g2 where
      "swizzle_loop intensity n1 (i + 1) g1 = Some (n2, g2)" "swizzled ts n2" "rng_ok g2"
      by auto
    with True a show ?thesis
      by (simp add: swizzle_loop.simps [of intensity nts i])
  qed
qed

lemma mutateSwizzle_spec:
  assumes "rng_ok g"
  shows "\<exists>out g'. mutateSwizzle ts intensity g = Some (out, g') \<and> swizzled ts out \<and> rng_ok g'"
  unfolding mutateSwizzle_def
  by (rule swizzle_loop_spec [OF assms]) (simp_all add: swizzled_refl)

lemma swizzled_frame: "swizzled ts out \<Longrightarrow> frame out = frame ts"
  unfolding frame_def
  by (rule nth_equalityI) (auto simp: swizzled_def permuted_at_def)

lemma mutateSwizzle_frame:
  assumes "rng_ok g"
  shows "\<exists>ts' g'. mutateSwizzle ts intensity g = Some (ts', g') \<and> frame ts' = frame ts \<and> rng_ok g'"
  using mutateSwizzle_spec [OF assms, of ts intensity] swizzled_frame by blast


text \<open>
  C10 (frame of the text-only passes).  For every token sequence, every intensity and
  every random source within the contract of \<open>Math.random\<close>, each of the passes Numbers,
  Operators, Builtins, Color and Swizzle returns a sequence of the same length in which
  the token at every position has the kind and the source offset of the input token at
  that position.
\<close>

theorem text_passes_keep_frame:
  assumes "rng_ok g"
    and "pass \<in> {mutateNumbers, mutateOperators, mutateBuiltins, mutateColor, mutateSwizzle}"
  shows "\<exists>out g'. pass tokens intensity g = Some (out, g')
           \<and> length out = length tokens
           \<and> (\<forall>i < length tokens.
                 tok_type (out ! i) = tok_type (tokens ! i)
               \<and> tok_index (out ! i) = tok_index (tokens ! i))"
proof -
  from assms(2) consider "pass = mutateNumbers" | "pass = mutateOperators"
    | "pass = mutateBuiltins" | "pass = mutateColor" | "pass = mutateSwizzle"
    by blast
  then have "\<exists>out g'. pass tokens intensity g = Some (out, g') \<and> frame out = frame tokens"
  proof cases
    case 1
    with mutateNumbers_frame [OF assms(1), of tokens intensity] show ?thesis by blast
  next
    case 2
    with mutateOperators_frame [OF assms(1), of tokens intensity] show ?thesis by blast
  next
    case 3
    with mutateBuiltins_frame [OF assms(1), of tokens intensity] show ?thesis by blast
  next
    case 4
    with mutateColor_frame [OF assms(1), of tokens intensity] show ?thesis by blast
  next
    case 5
    with mutateSwizzle_frame [OF assms(1), of tokens intensity] show ?thesis by blast
  qed
  then obtain out g' where o: "pass tokens intensity g = Some (out, g')" "frame out = frame tokens"
    by blast
  from o(2) have "length out = length tokens" by (rule frame_length)
  moreover from o(2) have "\<forall>i < length tokens.
      tok_type (out ! i) = tok_type (tokens ! i) \<and> tok_index (out ! i) = tok_index (tokens ! i)"
    using frame_nth by blast
  ultimately show ?thesis using o(1) by blast
qed

theorem text_passes_keep_frame_witness:
  "\<exists>out g'. mutateNumbers [\<lparr>tok_type = Number, tok_value = S ''1.5'', tok_index = 7\<rparr>] (Fin 1) (\<lambda>n. 0)
       = Some (out, g')
     \<and> length out = 1 \<and> tok_type (out ! 0) = Number \<and> tok_index (out ! 0) = 7"
  using text_passes_keep_frame [of "\<lambda>n. 0" mutateNumbers
      "[\<lparr>tok_type = Number, tok_value = S ''1.5'', tok_index = 7\<rparr>]" "Fin 1"]
  by (simp add: rng_ok_def)

section \<open>The splicing passes return\<close>







lemma scan_while_bounds:
  "0 \<le> j \<Longrightarrow> \<exists>k. scan_while P ts j = Some k \<and> j \<le> k"
  by (rule scan_while_total)






section \<open>The pipeline\<close>







subsection \<open>Passes that find nothing to act on\<close>

























lemmas lex_simps =
  tokenize_def tokenize_from.simps patterns_def match_comment_def match_whitespace_def
  match_number_def match_ident_def match_multi_punct_def multi_puncts_def
  match_single_punct_def single_puncts_def opt_exponent_def is_digit_def is_hex_def
  is_ident_start_def is_word_def is_space_def is_line_terminator_def S_def Let_def


section \<open>Evaluating the rounding\<close>

lemma binade_unique:
  assumes "0 < q" "2 powi e \<le> q" "q < 2 powi (e + 1)"
  shows "binade q = e"
proof -
  from binade_bounds [OF assms(1)] have b: "2 powi binade q \<le> q" "q < 2 powi (binade q + 1)"
    by simp_all
  have "\<not> binade q < e"
  proof
    assume "binade q < e"
    then have "(2::rat) powi (binade q + 1) \<le> 2 powi e"
      by (intro power_int_increasing) simp_all
    with b(2) assms(2) show False by simp
  qed
  moreover have "\<not> e < binade q"
  proof
    assume "e < binade q"
    then have "(2::rat) powi (e + 1) \<le> 2 powi binade q"
      by (intro power_int_increasing) simp_all
    with b(1) assms(3) show False by simp
  qed
  ultimately show ?thesis by simp
qed

lemma fl_eval:
  assumes "0 < q" "2 powi e \<le> q" "q < 2 powi (e + 1)" "- 1022 \<le> e"
    and "m = of_int (round_half_even (q / 2 powi (e - 52))) * 2 powi (e - 52)"
    and "m < 2 powi 1024"
  shows "fl q = Fin m"
  using assms binade_unique [OF assms(1-3)]
  by (simp add: fl_def Let_def max_def)

lemma floor_rat_numeral [simp]:
  "\<lfloor>(numeral a :: rat) / numeral b\<rfloor> = numeral a div numeral b"
  using floor_divide_of_int_eq [of "numeral a" "numeral b", where ?'a = rat] by simp

lemma floor_rat_neg_numeral [simp]:
  "\<lfloor>- (numeral a :: rat) / numeral b\<rfloor> = - numeral a div numeral b"
  using floor_divide_of_int_eq [of "- numeral a" "numeral b", where ?'a = rat] by simp

lemma fl_0 [simp]: "fl 0 = Fin 0"
  by (simp add: fl_def)

lemma lit_half: "lit (1 / 2) = Fin (1 / 2)"
  unfolding lit_def
  by (rule fl_eval [where e = "- 1"]) (simp_all add: round_half_even_def Let_def power_int_minus)

lemma lit_15: "lit (3 / 20) = Fin (5404319552844595 / 36028797018963968)"
  unfolding lit_def
  by (rule fl_eval [where e = "- 3"]) (simp_all add: round_half_even_def Let_def power_int_minus)


section \<open>The neutral configuration\<close>

lemma fuzzShader_neutral:
  assumes "\<not> cfg_mutateNumbers config" "\<not> cfg_mutateOperators config"
    "\<not> cfg_mutateBuiltins config" "\<not> cfg_mutateGeometry config" "\<not> cfg_mutateColor config"
    "\<not> cfg_mutateChaos config" "\<not> cfg_mutateStructure config"
  shows "fuzzShader T config g =
           (if js_lt (lit (15 / 100)) (cfg_intensity config)
            then map_option (serialize \<circ> fst) (mutateSwizzle (tokenize T) (cfg_intensity config) g)
            else Some T)"
  using assms
  by (auto simp: fuzzShader_def gated_def enabled_def Let_def tokenize_roundtrip
      split: bind_splits)

text \<open>
  C3 (neutral configuration).  With every flag false, \<open>fuzzShader\<close> returns the source
  unchanged when the intensity is not above \<open>0.15\<close>; in every case the result is the
  serialization of the lexed tokens in which nothing differs but, at swizzle sites, the
  order of the letters of the component name.
\<close>

theorem neutral_configuration:
  assumes "rng_ok g"
    and "\<not> cfg_mutateNumbers config" "\<not> cfg_mutateOperators config"
    "\<not> cfg_mutateBuiltins config" "\<not> cfg_mutateGeometry config" "\<not> cfg_mutateColor config"
    "\<not> cfg_mutateChaos config" "\<not> cfg_mutateStructure config"
  shows "(\<not> js_lt (lit (15 / 100)) (cfg_intensity config) \<longrightarrow> fuzzShader T config g = Some T)
       \<and> (\<exists>out. swizzled (tokenize T) out \<and> fuzzShader T config g = Some (serialize out))"
proof (cases "js_lt (lit (15 / 100)) (cfg_intensity config)")
  case True
  from mutateSwizzle_spec [OF assms(1), of "tokenize T" "cfg_intensity config"] obtain out g' where
    "mutateSwizzle (tokenize T) (cfg_intensity config) g = Some (out, g')"
    "swizzled (tokenize T) out" by blast
  with True show ?thesis
    by (auto simp: fuzzShader_neutral [OF assms(2-)])
next
  case False
  have "swizzled (tokenize T) (tokenize T)" by (rule swizzled_refl)
  moreover have "serialize (tokenize T) = T" by (rule tokenize_roundtrip)
  ultimately show ?thesis
    using False by (auto simp: fuzzShader_neutral [OF assms(2-)])
qed

lemmas swizzle_simps =
  mutateSwizzle_def swizzle_loop.simps swizzle_body_def tok_at_def is_swizzle_def
  shuffleString_def shuffle_loop.simps index_of_def math_floor_def random_eq

lemma swizzle_xy:
  "mutateSwizzle (tokenize (S ''v.xy'')) (Fin 1) (\<lambda>n. 0)
     = Some ([\<lparr>tok_type = Ident, tok_value = S ''v'', tok_index = 0\<rparr>,
              \<lparr>tok_type = Punct, tok_value = S ''.'', tok_index = 1\<rparr>,
              \<lparr>tok_type = Ident, tok_value = S ''yx'', tok_index = 2\<rparr>], \<lambda>n. 0)"
  by (simp add: lex_simps swizzle_simps)

theorem neutral_configuration_witness:
  "fuzzShader (S ''v.xy'')
     \<lparr>cfg_mutateNumbers = False, cfg_mutateOperators = False, cfg_mutateBuiltins = False,
      cfg_mutateGeometry = False, cfg_mutateColor = False, cfg_mutateChaos = False,
      cfg_mutateStructure = False, cfg_intensity = Fin 1\<rparr> (\<lambda>n. 0) = Some (S ''v.yx'')
   \<and> (\<exists>out. swizzled (tokenize (S ''v.xy'')) out
         \<and> fuzzShader (S ''v.xy'')
             \<lparr>cfg_mutateNumbers = False, cfg_mutateOperators = False,
              cfg_mutateBuiltins = False, cfg_mutateGeometry = False, cfg_mutateColor = False,
              cfg_mutateChaos = False, cfg_mutateStructure = False, cfg_intensity = Fin 1\<rparr>
             (\<lambda>n. 0) = Some (serialize out))"
proof -
  let ?cfg = "\<lparr>cfg_mutateNumbers = False, cfg_mutateOperators = False, cfg_mutateBuiltins = False,
      cfg_mutateGeometry = False, cfg_mutateColor = False, cfg_mutateChaos = False,
      cfg_mutateStructure = False, cfg_intensity = Fin 1\<rparr>"
  have g: "rng_ok (\<lambda>n. 0)" by (simp add: rng_ok_def)
  have "fuzzShader (S ''v.xy'') ?cfg (\<lambda>n. 0)
          = Some (serialize [\<lparr>tok_type = Ident, tok_value = S ''v'', tok_index = 0\<rparr>,
              \<lparr>tok_type = Punct, tok_value = S ''.'', tok_index = 1\<rparr>,
              \<lparr>tok_type = Ident, tok_value = S ''yx'', tok_index = 2\<rparr>])"
    by (simp add: fuzzShader_neutral lit_15 swizzle_xy)
  then have "fuzzShader (S ''v.xy'') ?cfg (\<lambda>n. 0) = Some (S ''v.yx'')"
    by (simp add: serialize_def S_def)
  with neutral_configuration [OF g, of ?cfg "S ''v.xy''"] show ?thesis
    by simp
qed

section \<open>The component alphabet of the Swizzle pass\<close>

text \<open>
  C6.  The pattern of \<open>mutateSwizzle\<close> is \<open>/^[xyzrgba]{2,4}$/\<close>: the letter \<open>w\<close> of the
  coordinate alphabet is missing from it.  A component name that contains \<open>w\<close> is never
  permuted, whatever the intensity and the random source, and no draw is made for it.
\<close>

theorem swizzle_skips_w:
  "mutateSwizzle (tokenize (S ''p.xyzw'')) intensity g = Some (tokenize (S ''p.xyzw''), g)"
  by (simp add: lex_simps swizzle_simps)

text \<open>The neighbouring name without \<open>w\<close> is permuted at intensity \<open>1\<close>.\<close>

lemma swizzle_permutes_xyz:
  "map_option (serialize \<circ> fst) (mutateSwizzle (tokenize (S ''p.xyz'')) (Fin 1) (\<lambda>n. 0))
     = Some (S ''p.yzx'')"
  by (simp add: lex_simps swizzle_simps serialize_def)

section \<open>Scenario A: the Chaos pass on a single return statement\<close>

lemma serialize_append [simp]: "serialize (a @ b) = serialize a @ serialize b"
  by (simp add: serialize_def)

definition scenario_a :: "Token list" where
  "scenario_a = tokenize (S ''return vec4<f32>(1.0, 0.0, 0.0, 1.0);'')"

lemma scenario_a_tokens:
  "scenario_a =
     [\<lparr>tok_type = Ident, tok_value = S ''return'', tok_index = 0\<rparr>,
      \<lparr>tok_type = Whitespace, tok_value = S '' '', tok_index = 6\<rparr>,
      \<lparr>tok_type = Ident, tok_value = S ''vec4'', tok_index = 7\<rparr>,
      \<lparr>tok_type = Punct, tok_value = S ''<'', tok_index = 11\<rparr>,
      \<lparr>tok_type = Ident, tok_value = S ''f32'', tok_index = 12\<rparr>,
      \<lparr>tok_type = Punct, tok_value = S ''>'', tok_index = 15\<rparr>,
      \<lparr>tok_type = Punct, tok_value = S ''('', tok_index = 16\<rparr>,
      \<lparr>tok_type = Number, tok_value = S ''1.0'', tok_index = 17\<rparr>,
      \<lparr>tok_type = Punct, tok_value = S '','', tok_index = 20\<rparr>,
      \<lparr>tok_type = Whitespace, tok_value = S '' '', tok_index = 21\<rparr>,
      \<lparr>tok_type = Number, tok_value = S ''0.0'', tok_index = 22\<rparr>,
      \<lparr>tok_type = Punct, tok_value = S '','', tok_index = 25\<rparr>,
      \<lparr>tok_type = Whitespace, tok_value = S '' '', tok_index = 26\<rparr>,
      \<lparr>tok_type = Number, tok_value = S ''0.0'', tok_index = 27\<rparr>,
      \<lparr>tok_type = Punct, tok_value = S '','', tok_index = 30\<rparr>,
      \<lparr>tok_type = Whitespace, tok_value = S '' '', tok_index = 31\<rparr>,
      \<lparr>tok_type = Number, tok_value = S ''1.0'', tok_index = 32\<rparr>,
      \<lparr>tok_type = Punct, tok_value = S '')'', tok_index = 35\<rparr>,
      \<lparr>tok_type = Punct, tok_value = S '';'', tok_index = 36\<rparr>]"
  by (simp add: scenario_a_def lex_simps)

lemma scenario_a_anchors:
  "find_return scenario_a = Some 0" "find_semi scenario_a 0 = Some 18"
  "ws_at scenario_a 1 = Some True"
  "serialize (slice scenario_a 2 18) = S ''vec4<f32>(1.0, 0.0, 0.0, 1.0)''"
  "serialize (take 2 scenario_a) = S ''return ''" "serialize (drop 18 scenario_a) = S '';''"
  unfolding scenario_a_tokens
  by (simp_all add: find_return_def find_semi_def find_back.simps find_from.simps tok_at_def
      is_ident_def has_value_def ws_at_def is_ws_def slice_def clamp_index_def serialize_def S_def)

lemma scenario_a_chaos:
  assumes "getRandomItem (chaosOptions (S ''vec4<f32>(1.0, 0.0, 0.0, 1.0)'')) g = (Some x, g')"
  shows "\<exists>out. mutateChaos scenario_a intensity g = Some (out, g')
           \<and> serialize out = S ''return '' @ x @ S '';''"
proof -
  have l: "length scenario_a = 19" by (simp add: scenario_a_tokens)
  have "splice scenario_a 2 16 ts = take 2 scenario_a @ ts @ drop 18 scenario_a" for ts
    by (simp add: splice_def clamp_index_def l)
  then show ?thesis
    using assms
    by (simp add: mutateChaos_def scenario_a_anchors tokenize_roundtrip)
qed

text \<open>The five texts that the templates give for this input.\<close>

definition scenario_a_results :: "jsstring list" where
  "scenario_a_results =
     [S ''return ( vec4<f32>(1.0, 0.0, 0.0, 1.0) + vec4<f32>(0.1, 0.1, 0.1, 0.0) );'',
      S ''return abs( vec4<f32>(1.0, 0.0, 0.0, 1.0) - 0.5 ) * 2.0;'',
      S ''return vec4<f32>( (vec4<f32>(1.0, 0.0, 0.0, 1.0)).brg, 1.0 );'',
      S ''return mix( vec4<f32>(1.0, 0.0, 0.0, 1.0), vec4<f32>(sin(time), cos(time), 0.5, 1.0), 0.1 );'',
      S ''return (vec4<f32>(1.0, 0.0, 0.0, 1.0) * vec4<f32>(1.2, 0.9, 0.8, 1.0));'']"

text \<open>
  The Chaos pass alone: for every intensity and every random source within the contract
  of \<open>Math.random\<close> it returns tokens whose text is one of the five.
\<close>

lemma chaos_pass_scenario_a:
  assumes "rng_ok g"
  shows "\<exists>out g'. mutateChaos scenario_a intensity g = Some (out, g') \<and> rng_ok g'
           \<and> serialize out \<in> set scenario_a_results"
proof -
  let ?e = "S ''vec4<f32>(1.0, 0.0, 0.0, 1.0)''"
  from getRandomItem_total [OF assms, of "chaosOptions ?e"] obtain x where
    x: "x \<in> set (chaosOptions ?e)" "getRandomItem (chaosOptions ?e) g = (Some x, snd (random g))"
    by (auto simp: chaosOptions_def)
  from scenario_a_chaos [OF x(2), of intensity] obtain out where
    out: "mutateChaos scenario_a intensity g = Some (out, snd (random g))"
      "serialize out = S ''return '' @ x @ S '';''" by blast
  from x(1) have "S ''return '' @ x @ S '';'' \<in> set scenario_a_results"
    by (auto simp: chaosOptions_def scenario_a_results_def S_def)
  with out rng_ok_random [OF assms] show ?thesis
    by metis
qed

text \<open>A random source that returns the given values in order, and \<open>0\<close> after them.\<close>

definition source_of :: "rat list \<Rightarrow> rng" where
  "source_of xs n = (if n < length xs then xs ! n else 0)"

lemma random_source_of_Nil: "random (source_of []) = (Fin 0, source_of [])"
  by (simp add: random_eq source_of_def fun_eq_iff)

lemma random_source_of_Cons: "random (source_of (x # xs)) = (Fin x, source_of xs)"
  by (simp add: random_eq source_of_def fun_eq_iff)

lemma rng_ok_source_of:
  "list_all (\<lambda>x. 0 \<le> x \<and> x \<le> 1 - 1 / 2 ^ 53) xs \<Longrightarrow> rng_ok (source_of xs)"
  by (simp add: rng_ok_def source_of_def list_all_length)

text \<open>The configuration of the scenario: only \<open>mutateChaos\<close> is set.\<close>

definition chaos_only :: "jsnum \<Rightarrow> FuzzConfig" where
  "chaos_only intensity =
     \<lparr>cfg_mutateNumbers = False, cfg_mutateOperators = False, cfg_mutateBuiltins = False,
      cfg_mutateGeometry = False, cfg_mutateColor = False, cfg_mutateChaos = True,
      cfg_mutateStructure = False, cfg_intensity = intensity\<rparr>"

lemma fuzzShader_only_chaos:
  assumes "cfg_mutateChaos config"
    "\<not> cfg_mutateNumbers config" "\<not> cfg_mutateOperators config"
    "\<not> cfg_mutateBuiltins config" "\<not> cfg_mutateGeometry config" "\<not> cfg_mutateColor config"
    "\<not> cfg_mutateStructure config"
    and "js_lt (fst (random g)) (cfg_intensity config)"
    and "mutateChaos (tokenize code) (cfg_intensity config) (snd (random g)) = Some (out, g')"
  shows "fuzzShader code config g =
           (if js_lt (lit (15 / 100)) (cfg_intensity config)
            then map_option (serialize \<circ> fst) (mutateSwizzle out (cfg_intensity config) g')
            else Some (serialize out))"
  using assms
  by (cases "random g")
    (auto simp: fuzzShader_def gated_def enabled_def Let_def split: bind_splits)

lemma fl_five_halves: "fl (5 / 2) = Fin (5 / 2)"
  by (rule fl_eval [where e = 1]) (simp_all add: round_half_even_def Let_def power_int_minus)

lemma scenario_a_third:
  "mutateChaos scenario_a (Fin 1) (source_of [1 / 2]) =
     Some (take 2 scenario_a
             @ tokenize (S ''vec4<f32>( (vec4<f32>(1.0, 0.0, 0.0, 1.0)).brg, 1.0 )'')
             @ drop 18 scenario_a, source_of [])"
proof -
  have l: "length scenario_a = 19" by (simp add: scenario_a_tokens)
  have sp: "splice scenario_a 2 16 ts = take 2 scenario_a @ ts @ drop 18 scenario_a" for ts
    by (simp add: splice_def clamp_index_def l)
  have "getRandomItem (chaosOptions (S ''vec4<f32>(1.0, 0.0, 0.0, 1.0)'')) (source_of [1 / 2])
          = (Some (S ''vec4<f32>( (vec4<f32>(1.0, 0.0, 0.0, 1.0)).brg, 1.0 )''), source_of [])"
    by (simp add: getRandomItem_def random_source_of_Cons fl_five_halves elem_at_def
        math_floor_def chaosOptions_def S_def)
  then show ?thesis
    by (simp add: mutateChaos_def scenario_a_anchors sp)
qed


lemma scenario_a_swizzle:
  "map_option (serialize \<circ> fst)
     (mutateSwizzle
        (take 2 scenario_a
           @ tokenize (S ''vec4<f32>( (vec4<f32>(1.0, 0.0, 0.0, 1.0)).brg, 1.0 )'')
           @ drop 18 scenario_a) (Fin 1) (source_of []))
     = Some (S ''return vec4<f32>( (vec4<f32>(1.0, 0.0, 0.0, 1.0)).rgb, 1.0 );'')"
  by (simp add: scenario_a_tokens lex_simps swizzle_simps source_of_def serialize_def)

lemma lt_15_1: "js_lt (lit (3 / 20)) (Fin 1)"
  by (simp add: lit_15)

text \<open>
  C8 (scenario A), the claim as stated fails.  The scenario is a run of \<open>fuzzShader\<close> with
  only \<open>mutateChaos\<close> set and intensity \<open>1.0\<close>.  With the draws \<open>0, 1/2, 0, 0, \<dots>\<close> the Chaos
  gate triggers, the third template is chosen, and the Swizzle pass, which runs because
  the intensity is above \<open>0.15\<close>, shuffles the \<open>.brg\<close> of that template into \<open>.rgb\<close>: the
  returned text is none of the five.
\<close>

theorem chaos_scenario_a_swizzled:
  "fuzzShader (S ''return vec4<f32>(1.0, 0.0, 0.0, 1.0);'') (chaos_only (Fin 1))
       (source_of [0, 1 / 2])
     = Some (S ''return vec4<f32>( (vec4<f32>(1.0, 0.0, 0.0, 1.0)).rgb, 1.0 );'')
   \<and> S ''return vec4<f32>( (vec4<f32>(1.0, 0.0, 0.0, 1.0)).rgb, 1.0 );''
        \<notin> set scenario_a_results"
proof -
  have "fuzzShader (S ''return vec4<f32>(1.0, 0.0, 0.0, 1.0);'') (chaos_only (Fin 1))
          (source_of [0, 1 / 2])
        = Some (S ''return vec4<f32>( (vec4<f32>(1.0, 0.0, 0.0, 1.0)).rgb, 1.0 );'')"
    by (subst fuzzShader_only_chaos [where out = "take 2 scenario_a
           @ tokenize (S ''vec4<f32>( (vec4<f32>(1.0, 0.0, 0.0, 1.0)).brg, 1.0 )'')
           @ drop 18 scenario_a" and g' = "source_of []"])
      (simp_all add: chaos_only_def random_source_of_Cons scenario_a_third scenario_a_swizzle
        lt_15_1 flip: scenario_a_def)
  moreover have "S ''return vec4<f32>( (vec4<f32>(1.0, 0.0, 0.0, 1.0)).rgb, 1.0 );''
        \<notin> set scenario_a_results"
    by (simp add: scenario_a_results_def S_def)
  ultimately show ?thesis by simp
qed

text \<open>
  C8 (scenario A), amended.  Run \<open>fuzzShader\<close> on
  \<open>return vec4<f32>(1.0, 0.0, 0.0, 1.0);\<close> with only \<open>mutateChaos\<close> set, a random source
  within the contract of \<open>Math.random\<close>, and a first draw below the intensity, so that the
  Chaos gate triggers.  Then the Chaos pass returns tokens whose text is one of

    \<^item> \<open>return ( vec4<f32>(1.0, 0.0, 0.0, 1.0) + vec4<f32>(0.1, 0.1, 0.1, 0.0) );\<close>
    \<^item> \<open>return abs( vec4<f32>(1.0, 0.0, 0.0, 1.0) - 0.5 ) * 2.0;\<close>
    \<^item> \<open>return vec4<f32>( (vec4<f32>(1.0, 0.0, 0.0, 1.0)).brg, 1.0 );\<close>
    \<^item> \<open>return mix( vec4<f32>(1.0, 0.0, 0.0, 1.0), vec4<f32>(sin(time), cos(time), 0.5, 1.0), 0.1 );\<close>
    \<^item> \<open>return (vec4<f32>(1.0, 0.0, 0.0, 1.0) * vec4<f32>(1.2, 0.9, 0.8, 1.0));\<close>

  and the run returns the text of tokens that differ from those only in that a swizzle
  after a \<open>.\<close> may have its letters permuted; when the intensity is not above \<open>0.15\<close> the
  Swizzle pass does not run and the run returns one of the five texts itself.
\<close>

theorem chaos_scenario_a:
  assumes "rng_ok g"
    and "cfg_mutateChaos config"
    and "\<not> cfg_mutateNumbers config" "\<not> cfg_mutateOperators config"
      "\<not> cfg_mutateBuiltins config" "\<not> cfg_mutateGeometry config"
      "\<not> cfg_mutateColor config" "\<not> cfg_mutateStructure config"
    and "js_lt (fst (random g)) (cfg_intensity config)"
  shows "\<exists>out g' out'.
           mutateChaos (tokenize (S ''return vec4<f32>(1.0, 0.0, 0.0, 1.0);''))
               (cfg_intensity config) (snd (random g)) = Some (out, g')
         \<and> serialize out \<in> set scenario_a_results
         \<and> swizzled out out'
         \<and> fuzzShader (S ''return vec4<f32>(1.0, 0.0, 0.0, 1.0);'') config g
             = Some (serialize out')
         \<and> (\<not> js_lt (lit (15 / 100)) (cfg_intensity config) \<longrightarrow> out' = out)"
proof -
  let ?i = "cfg_intensity config"
  have g1: "rng_ok (snd (random g))" by (rule rng_ok_random [OF assms(1)])
  from chaos_pass_scenario_a [OF g1, of ?i] obtain out g' where
    out: "mutateChaos scenario_a ?i (snd (random g)) = Some (out, g')" "rng_ok g'"
      "serialize out \<in> set scenario_a_results" by blast
  note run = fuzzShader_only_chaos [OF assms(2-9) out(1) [unfolded scenario_a_def]]
  show ?thesis
  proof (cases "js_lt (lit (15 / 100)) ?i")
    case True
    from mutateSwizzle_spec [OF out(2), of out ?i] obtain out' g'' where
      "mutateSwizzle out ?i g' = Some (out', g'')" "swizzled out out'" by blast
    with True out run show ?thesis
      unfolding scenario_a_def by (intro exI [of _ out] exI [of _ g'] exI [of _ out']) simp
  next
    case False
    with out run swizzled_refl [of out] show ?thesis
      unfolding scenario_a_def by (intro exI [of _ out] exI [of _ g'] exI [of _ out]) simp
  qed
qed

theorem chaos_scenario_a_witness:
  "\<exists>out g' out'.
      mutateChaos (tokenize (S ''return vec4<f32>(1.0, 0.0, 0.0, 1.0);''))
          (Fin 1) (source_of [1 / 2]) = Some (out, g')
    \<and> serialize out \<in> set scenario_a_results
    \<and> swizzled out out'
    \<and> fuzzShader (S ''return vec4<f32>(1.0, 0.0, 0.0, 1.0);'') (chaos_only (Fin 1))
          (source_of [0, 1 / 2]) = Some (serialize out')"
proof -
  have ok: "rng_ok (source_of [0, 1 / 2])"
    by (rule rng_ok_source_of) simp
  from chaos_scenario_a [OF ok, of "chaos_only (Fin 1)"] show ?thesis
    by (simp add: chaos_only_def random_source_of_Cons) blast
qed

section \<open>The text of a mutated literal\<close>

lemma fl_neg: "fl (- q) = js_neg (fl q)"
  by (cases "q = 0"; cases "0 < q") (auto simp: fl_def js_neg_def Let_def)

lemma round_half_even_lower: "of_int \<lfloor>y\<rfloor> \<le> (of_int (round_half_even y) :: rat)"
  by (simp add: round_half_even_def Let_def)

lemma fl_overflow:
  assumes "2 powi 1024 \<le> q"
  shows "fl q = PosInf"
proof -
  have "(0::rat) < 2 powi 1024" by simp
  with assms have q0: "0 < q" by linarith
  define e where "e = max (binade q) (- 1022)"
  define ulp :: rat where "ulp = 2 powi (e - 52)"
  have ulp0: "0 < ulp" by (simp add: ulp_def)
  have "\<not> binade q < 1024"
  proof
    assume "binade q < 1024"
    then have "(2::rat) powi (binade q + 1) \<le> 2 powi 1024"
      by (intro power_int_increasing) simp_all
    with binade_bounds [OF q0] assms show False by simp
  qed
  then have e: "e = binade q" "1024 \<le> e" by (simp_all add: e_def)
  have "2 powi e \<le> q" using binade_bounds [OF q0] e by simp
  moreover have "(2::rat) powi e = 2 ^ 52 * ulp"
    unfolding ulp_def by (simp add: power_int_diff)
  ultimately have "2 ^ 52 \<le> q / ulp" using ulp0 by (simp add: pos_le_divide_eq)
  then have "(2::int) ^ 52 \<le> \<lfloor>q / ulp\<rfloor>" by (simp add: le_floor_iff)
  then have "(2::rat) ^ 52 \<le> of_int \<lfloor>q / ulp\<rfloor>"
    by (metis of_int_le_iff of_int_numeral of_int_power)
  with round_half_even_lower [of "q / ulp"] have "2 ^ 52 \<le> (of_int (round_half_even (q / ulp)) :: rat)"
    by linarith
  with ulp0 have "2 ^ 52 * ulp \<le> of_int (round_half_even (q / ulp)) * ulp"
    by (simp add: mult_right_mono)
  with \<open>(2::rat) powi e = 2 ^ 52 * ulp\<close> have "2 powi e \<le> of_int (round_half_even (q / ulp)) * ulp"
    by simp
  moreover have "(2::rat) powi 1024 \<le> 2 powi e"
    using e(2) by (intro power_int_increasing) simp_all
  ultimately have "2 powi 1024 \<le> of_int (round_half_even (q / ulp)) * ulp" by linarith
  then show ?thesis
    using q0 by (simp add: fl_def Let_def ulp_def e_def)
qed

lemma lit_thousandth: "lit (1 / 1000) = Fin (1152921504606847 / 1152921504606846976)"
  unfolding lit_def
  by (rule fl_eval [where e = "- 10"]) (simp_all add: round_half_even_def Let_def power_int_minus)

lemma digits_of_nonempty: "digits_of n \<noteq> []"
  by (subst digits_of.simps) simp

lemma digits_of_digits: "list_all is_digit (digits_of n)"
proof (induction n rule: digits_of.induct)
  case (1 n)
  show ?case
  proof (cases "n < 10")
    case True
    then show ?thesis by (subst digits_of.simps) (simp add: is_digit_def)
  next
    case False
    have "n mod 10 < 10" by simp
    then have "is_digit (48 + n mod 10)" unfolding is_digit_def by linarith
    with False 1 show ?thesis by (subst digits_of.simps) simp
  qed
qed

text \<open>
  A decimal with at most \<open>k\<close> fractional digits: an optional minus sign, one or more
  digits, and optionally a point followed by one to \<open>k\<close> digits.
\<close>

definition decimal_upto :: "nat \<Rightarrow> jsstring \<Rightarrow> bool" where
  "decimal_upto k s =
     (let b = (if take 1 s = S ''-'' then drop 1 s else s);
          ip = takeWhile is_digit b;
          r = dropWhile is_digit b
      in ip \<noteq> []
         \<and> (r = [] \<or> (take 1 r = S ''.'' \<and> drop 1 r \<noteq> [] \<and> list_all is_digit (drop 1 r)
                       \<and> length (drop 1 r) \<le> k)))"

lemma decimal_uptoI:
  assumes "ip \<noteq> []" "list_all is_digit ip" "fr \<noteq> []" "list_all is_digit fr" "length fr \<le> k"
    and "sg = [] \<or> sg = S ''-''"
  shows "decimal_upto k (sg @ ip @ S ''.'' @ fr)"
proof -
  from assms(1,2) obtain c cs where ip: "ip = c # cs" "is_digit c" by (cases ip) auto
  then have c: "c \<noteq> 45" by (auto simp: is_digit_def)
  have b: "(if take 1 (sg @ ip @ S ''.'' @ fr) = S ''-'' then drop 1 (sg @ ip @ S ''.'' @ fr)
            else sg @ ip @ S ''.'' @ fr) = ip @ S ''.'' @ fr"
    using assms(6) ip c by (auto simp: S_def)
  have nd: "\<not> is_digit 46" by (simp add: is_digit_def)
  have tw: "takeWhile is_digit (ip @ S ''.'' @ fr) = ip"
    using assms(2) nd by (simp add: takeWhile_append2 list_all_iff S_def)
  have dw: "dropWhile is_digit (ip @ S ''.'' @ fr) = S ''.'' @ fr"
    using assms(2) nd by (simp add: dropWhile_append2 list_all_iff S_def)
  show ?thesis
    unfolding decimal_upto_def Let_def b tw dw
    using assms by (simp add: S_def)
qed

lemma toFixed_decimal:
  assumes "\<bar>x\<bar> < 10 ^ 21" "0 < f"
  shows "decimal_upto f (toFixed f (Fin x))"
proof -
  define n where "n = nat \<lfloor>\<bar>x\<bar> * 10 ^ f + 1 / 2\<rfloor>"
  define m where "m = digits_of n"
  define m' where "m' = (if length m \<le> f then replicate (f + 1 - length m) 48 @ m else m)"
  have d48: "is_digit 48" by (simp add: is_digit_def)
  have md: "list_all is_digit m'" and ml: "f < length m'"
    using digits_of_digits [of n] d48
    by (auto simp: m'_def m_def list_all_iff)
  have tf: "toFixed f (Fin x) = (if x < 0 then S ''-'' else [])
              @ take (length m' - f) m' @ S ''.'' @ drop (length m' - f) m'"
    using assms by (simp add: toFixed_def Let_def n_def m_def m'_def)
  show ?thesis
    unfolding tf
    using md ml assms(2)
    by (intro decimal_uptoI) (auto simp: list_all_iff dest: in_set_takeD in_set_dropD)
qed



lemma fl_one: "fl 1 = Fin 1"
  by (rule fl_eval [where e = 0]) (simp_all add: round_half_even_def Let_def power_int_minus)

lemma fl_half: "fl (1 / 2) = Fin (1 / 2)"
  using lit_half by (simp add: lit_def)

lemma fl_three_halves: "fl (3 / 2) = Fin (3 / 2)"
  by (rule fl_eval [where e = 0]) (simp_all add: round_half_even_def Let_def power_int_minus)

lemma fl_minus_half: "fl (- (1 / 2)) = Fin (- (1 / 2))"
  by (simp add: fl_neg fl_half js_neg_def)

lemma perturb_zeros_finite:
  "perturb_number (Fin a) (source_of []) = (fl (a - 1 / 2), source_of [])"
  by (simp add: perturb_number_def random_source_of_Nil lit_half js_sub_def js_neg_def fl_minus_half)

lemma perturb_zeros_inf: "perturb_number PosInf (source_of []) = (PosInf, source_of [])"
  by (simp add: perturb_number_def random_source_of_Nil lit_half js_sub_def js_neg_def fl_minus_half)

lemma parseFloat_1_5: "parseFloat (S ''1.5'') = Fin (3 / 2)"
  by (simp add: parseFloat_def Let_def S_def is_space_def is_digit_def opt_exponent_def
      exponent_val_def digits_val_def power_int_minus fl_three_halves)

lemma two_ten_power: "(2::rat) ^ (10 * k) \<le> 10 ^ (4 * k)"
proof -
  have "(2::rat) ^ (10 * k) = (2 ^ 10) ^ k" by (simp only: power_mult)
  also have "\<dots> \<le> (10 ^ 4) ^ k" by (rule power_mono) simp_all
  also have "\<dots> = 10 ^ (4 * k)" by (simp only: power_mult)
  finally show ?thesis .
qed

lemma overflow_bound: "(2::rat) powi 1024 \<le> 10 powi 999"
proof -
  have "(2::rat) powi 1024 \<le> 2 powi 1030" by (rule power_int_increasing) simp_all
  also have "\<dots> = 2 ^ (10 * 103)" by simp
  also have "\<dots> \<le> 10 ^ (4 * 103)" by (rule two_ten_power)
  also have "\<dots> = 10 powi 412" by (simp only: power_int_of_nat [symmetric]) simp
  also have "\<dots> \<le> 10 powi 999" by (rule power_int_increasing) simp_all
  finally show ?thesis .
qed

lemma powi_pred: "(10::rat) * 10 powi (n - 1) = 10 powi n"
  by (simp add: power_int_diff)

lemma parseFloat_huge: "parseFloat (S ''1.0e999'') = PosInf"
proof -
  have e: "exponent_val (opt_exponent [101, 57, 57, 57]) = 999"
    by (simp add: S_def is_digit_def opt_exponent_def exponent_val_def digits_val_def)
  have "parseFloat (S ''1.0e999'') = fl (of_nat 10 * 10 powi (999 - 1))"
    unfolding parseFloat_def Let_def
    by (simp add: S_def is_space_def is_digit_def digits_val_def e
       del: power_int_numeral power_numeral of_nat_numeral)
  also have "\<dots> = fl (10 powi 999)"
    by (simp only: of_nat_numeral powi_pred)
  also have "\<dots> = PosInf"
    by (rule fl_overflow) (rule overflow_bound)
  finally show ?thesis .
qed

text \<open>
  When the perturbed value is finite and of magnitude below \<open>10 ^ 21\<close>, the new text is a
  decimal with at most three fractional digits, and it is \<open>0.0\<close> when the value is within
  \<open>0.001\<close> of zero.
\<close>

lemma numbers_text_of_value:
  assumes "tok_type t = Number" "includes_dot (tok_value t)"
    and "js_lt (fst (random g)) intensity" "\<not> isNaN (parseFloat (tok_value t))"
    and "perturb_number (parseFloat (tok_value t)) (snd (random g)) = (Fin x, g')"
    and "\<bar>x\<bar> < 10 ^ 21"
  shows "\<exists>text. mutate_number intensity t g = Some (t\<lparr>tok_value := text\<rparr>, g')
           \<and> decimal_upto 3 text
           \<and> (\<bar>x\<bar> < 1 / 1000 \<longrightarrow> text = S ''0.0'')"
proof -
  define new_text where
    "new_text = (if js_lt (math_abs (Fin x)) (lit (1 / 1000)) then S ''0.0'' else toFixed 3 (Fin x))"
  have m: "mutate_number intensity t g = Some (t\<lparr>tok_value := new_text\<rparr>, g')"
    using assms(1-5) by (cases "random g") (simp add: mutate_number_def new_text_def)
  have z: "decimal_upto 3 (S ''0.0'')"
    by (simp add: decimal_upto_def S_def is_digit_def)
  have "decimal_upto 3 (toFixed 3 (Fin x))"
    using assms(6) by (intro toFixed_decimal) simp_all
  with z have d: "decimal_upto 3 new_text" by (simp add: new_text_def)
  have "new_text = S ''0.0''" if "\<bar>x\<bar> < 1 / 1000"
    using that by (simp add: new_text_def math_abs_def lit_thousandth)
  with m d show ?thesis by blast
qed

text \<open>
  Rounding never leaves a binade: a value of magnitude at most \<open>2 ^ k\<close> rounds to a finite
  value of magnitude at most \<open>2 ^ k\<close>.  So the jitter and the scale keep a literal of
  magnitude at most \<open>2 ^ 67\<close> finite and of magnitude at most \<open>2 ^ 68\<close>.
\<close>

lemma round_half_even_le_int:
  assumes "y \<le> of_int J"
  shows "round_half_even y \<le> J"
proof (cases "y = of_int J")
  case True
  then show ?thesis by (simp add: round_half_even_def Let_def)
next
  case False
  with assms have "y < of_int J" by simp
  then have "\<lfloor>y\<rfloor> < J" by (simp add: floor_less_iff)
  moreover have "round_half_even y \<le> \<lfloor>y\<rfloor> + 1"
    by (simp add: round_half_even_def Let_def)
  ultimately show ?thesis by linarith
qed

lemma fl_bound:
  assumes "\<bar>q\<bar> \<le> 2 powi k" "- 1022 \<le> k" "k \<le> 1023"
  shows "\<exists>y. fl q = Fin y \<and> \<bar>y\<bar> \<le> 2 powi k"
proof (cases "q = 0")
  case True
  then show ?thesis by (simp add: fl_def)
next
  case False
  define x where "x = \<bar>q\<bar>"
  from False have x0: "0 < x" by (simp add: x_def)
  define e where "e = max (binade x) (- 1022)"
  define ulp :: rat where "ulp = 2 powi (e - 52)"
  define m where "m = of_int (round_half_even (x / ulp)) * ulp"
  have ulp0: "0 < ulp" by (simp add: ulp_def)
  have "binade x \<le> k"
  proof (rule ccontr)
    assume "\<not> binade x \<le> k"
    then have "k + 1 \<le> binade x" by simp
    then have "(2::rat) powi (k + 1) \<le> 2 powi binade x"
      by (intro power_int_increasing) simp_all
    moreover have "(2::rat) powi k < 2 powi (k + 1)"
      by (intro power_int_strict_increasing) simp_all
    ultimately show False using binade_bounds [OF x0] assms(1) by (simp add: x_def)
  qed
  with assms(2) have ek: "e \<le> k" by (simp add: e_def)
  define J :: int where "J = 2 ^ nat (k - e + 52)"
  have J: "(of_int J :: rat) = 2 powi (k - e + 52)"
    using ek by (simp add: J_def power_int_def)
  have "of_int J * ulp = (2::rat) powi (k - e + 52 + (e - 52))"
    unfolding J ulp_def by (rule power_int_add [symmetric]) simp
  then have Ju: "of_int J * ulp = (2::rat) powi k" by simp
  have "x / ulp \<le> of_int J"
    using assms(1) ulp0 Ju by (simp add: x_def pos_divide_le_eq)
  then have "round_half_even (x / ulp) \<le> J" by (rule round_half_even_le_int)
  then have "(of_int (round_half_even (x / ulp)) :: rat) \<le> of_int J" by simp
  with ulp0 have "m \<le> of_int J * ulp" unfolding m_def by (simp add: mult_right_mono)
  with Ju have mk: "m \<le> 2 powi k" by simp
  have m0: "0 \<le> m"
    unfolding m_def using round_half_even_nonneg [of "x / ulp"] ulp0 x0 by simp
  have "(2::rat) powi k < 2 powi 1024"
    using assms(3) by (intro power_int_strict_increasing) simp_all
  with mk have "\<not> 2 powi 1024 \<le> m" by linarith
  then have "fl q = Fin (sgn q * m)"
    using False by (simp add: fl_def Let_def m_def ulp_def e_def x_def)
  moreover have "\<bar>sgn q * m\<bar> = m"
    using False m0 by (simp add: abs_mult)
  ultimately show ?thesis using mk by simp
qed

lemma perturb_number_bound:
  assumes "rng_ok g" "\<bar>v\<bar> \<le> 2 powi 67"
  shows "\<exists>x. perturb_number (Fin v) g = (Fin x, snd (random (snd (random g)))) \<and> \<bar>x\<bar> \<le> 2 powi 68"
proof -
  define b where "b = g 0"
  define c where "c = g 1"
  from assms(1) have c: "0 \<le> c" "c \<le> 1 - 1 / 2 ^ 53" by (simp_all add: rng_ok_def c_def)
  have r: "random g = (Fin b, \<lambda>n. g (Suc n))"
    "random (\<lambda>n. g (Suc n)) = (Fin c, \<lambda>n. g (Suc (Suc n)))"
    by (simp_all add: random_eq b_def c_def)
  have c1: "c < 1"
  proof -
    have "(0::rat) < 1 / 2 ^ 53" by simp
    with c(2) show ?thesis by linarith
  qed
  show ?thesis
  proof (cases "js_lt (Fin b) (lit (1 / 2))")
    case True
    have "\<bar>c - 1 / 2\<bar> \<le> 1 / 2" using c(1) c1 by linarith
    then have "\<bar>c - 1 / 2\<bar> \<le> 2 powi (- 1)" by (simp add: power_int_minus)
    from fl_bound [OF this] obtain y where y: "fl (c - 1 / 2) = Fin y" "\<bar>y\<bar> \<le> 2 powi (- 1)"
      by auto
    have "(2::rat) powi 67 + 2 powi (- 1) \<le> 2 powi 68" by (simp add: power_int_minus)
    with assms(2) y(2) have "\<bar>v + y\<bar> \<le> 2 powi 68" by linarith
    from fl_bound [OF this] obtain x where x: "fl (v + y) = Fin x" "\<bar>x\<bar> \<le> 2 powi 68" by auto
    with True y show ?thesis
      by (simp add: perturb_number_def r lit_half js_sub_def js_neg_def)
  next
    case False
    have "\<bar>1 / 2 + c\<bar> \<le> 2" using c(1) c1 by linarith
    then have "\<bar>1 / 2 + c\<bar> \<le> 2 powi 1" by simp
    from fl_bound [OF this] obtain y where y: "fl (1 / 2 + c) = Fin y" "\<bar>y\<bar> \<le> 2 powi 1" by auto
    have "\<bar>v * y\<bar> = \<bar>v\<bar> * \<bar>y\<bar>" by (rule abs_mult)
    also have "\<dots> \<le> 2 powi 67 * 2 powi 1"
      using assms(2) y(2) by (intro mult_mono) simp_all
    also have "\<dots> = (2::rat) powi 68" by simp
    finally have "\<bar>v * y\<bar> \<le> 2 powi 68" .
    from fl_bound [OF this] obtain x where x: "fl (v * y) = Fin x" "\<bar>x\<bar> \<le> 2 powi 68" by auto
    with False y show ?thesis
      by (simp add: perturb_number_def r lit_half)
  qed
qed

text \<open>
  C7 (Numbers), amended.  Take a number token whose text contains a decimal point and
  whose value is finite and of magnitude at most \<open>10 ^ 20\<close>, and a random source within the
  contract of \<open>Math.random\<close> whose first draw is below the intensity, so that the token is
  mutated.  Then the perturbed value \<open>x\<close> is finite, the new text is a decimal with at most
  three fractional digits, and it is the exact text \<open>0.0\<close> when \<open>x\<close> is within \<open>0.001\<close> of
  zero.
\<close>

theorem numbers_text_bounds:
  assumes "tok_type t = Number" "includes_dot (tok_value t)"
    and "rng_ok g" "js_lt (fst (random g)) intensity"
    and "parseFloat (tok_value t) = Fin v" "\<bar>v\<bar> \<le> 10 ^ 20"
  shows "\<exists>text x g'. mutate_number intensity t g = Some (t\<lparr>tok_value := text\<rparr>, g')
           \<and> perturb_number (Fin v) (snd (random g)) = (Fin x, g')
           \<and> decimal_upto 3 text
           \<and> (\<bar>x\<bar> < 1 / 1000 \<longrightarrow> text = S ''0.0'')"
proof -
  have "(10::rat) ^ 20 \<le> 2 powi 67" by simp
  with assms(6) have v: "\<bar>v\<bar> \<le> 2 powi 67" by linarith
  from perturb_number_bound [OF rng_ok_random [OF assms(3)] v] obtain x where
    x: "perturb_number (Fin v) (snd (random g)) = (Fin x, snd (random (snd (random (snd (random g))))))"
      "\<bar>x\<bar> \<le> 2 powi 68" by blast
  have "(2::rat) powi 68 < 10 ^ 21" by simp
  with x(2) have x21: "\<bar>x\<bar> < 10 ^ 21" by linarith
  have n: "\<not> isNaN (parseFloat (tok_value t))" by (simp add: assms(5) isNaN_def)
  from numbers_text_of_value [OF assms(1,2,4) n x(1) [folded assms(5)] x21] x(1)
  show ?thesis by blast
qed

theorem numbers_text_bounds_witness:
  "\<exists>text x g'.
      mutate_number (Fin 1) \<lparr>tok_type = Number, tok_value = S ''1.5'', tok_index = 0\<rparr> (source_of [])
        = Some (\<lparr>tok_type = Number, tok_value = text, tok_index = 0\<rparr>, g')
    \<and> perturb_number (Fin (3 / 2)) (source_of []) = (Fin x, g')
    \<and> decimal_upto 3 text"
proof -
  let ?t = "\<lparr>tok_type = Number, tok_value = S ''1.5'', tok_index = 0\<rparr>"
  have "includes_dot (tok_value ?t)" by (simp add: includes_dot_def S_def)
  moreover have "rng_ok (source_of [])" by (rule rng_ok_source_of) simp
  moreover have "js_lt (fst (random (source_of []))) (Fin 1)" by (simp add: random_source_of_Nil)
  moreover have "parseFloat (tok_value ?t) = Fin (3 / 2)" by (simp add: parseFloat_1_5)
  ultimately show ?thesis
    using numbers_text_bounds [of ?t "source_of []" "Fin 1" "3 / 2"]
    by (simp add: random_source_of_Nil) blast
qed

text \<open>
  C7, the claim as stated fails for a literal beyond the binary64 range: \<open>parseFloat\<close> gives
  \<open>Infinity\<close>, the guard \<open>!isNaN(val)\<close> lets it pass, and \<open>toFixed(3)\<close> prints \<open>Infinity\<close>.
\<close>

theorem numbers_infinity_counterexample:
  "mutateNumbers (tokenize (S ''1.0e999'')) (Fin 1) (source_of [])
     = Some ([\<lparr>tok_type = Number, tok_value = S ''Infinity'', tok_index = 0\<rparr>], source_of [])
   \<and> \<not> decimal_upto 3 (S ''Infinity'')"
proof -
  have t: "tokenize (S ''1.0e999'') = [\<lparr>tok_type = Number, tok_value = S ''1.0e999'', tok_index = 0\<rparr>]"
    by (simp add: lex_simps)
  have d: "includes_dot (S ''1.0e999'')" by (simp add: includes_dot_def S_def)
  have "mutate_number (Fin 1) \<lparr>tok_type = Number, tok_value = S ''1.0e999'', tok_index = 0\<rparr> (source_of [])
          = Some (\<lparr>tok_type = Number, tok_value = S ''Infinity'', tok_index = 0\<rparr>, source_of [])"
    by (simp add: mutate_number_def d random_source_of_Nil parseFloat_huge isNaN_def perturb_zeros_inf
        math_abs_def lit_thousandth toFixed_def toString_def)
  then have "mutateNumbers (tokenize (S ''1.0e999'')) (Fin 1) (source_of [])
     = Some ([\<lparr>tok_type = Number, tok_value = S ''Infinity'', tok_index = 0\<rparr>], source_of [])"
    by (simp add: t mutateNumbers_def)
  moreover have "\<not> decimal_upto 3 (S ''Infinity'')"
    by (simp add: decimal_upto_def S_def is_digit_def)
  ultimately show ?thesis by simp
qed

section \<open>What the Geometry pass does\<close>

subsection \<open>Which tokens the renaming loop skips\<close>

text \<open>
  \<open>after_dot ts i\<close>: the nearest token before position \<open>i\<close> that is not white space has the
  text \<open>.\<close>.  \<open>before_colon ts i\<close>: the nearest token after position \<open>i\<close> that is not white
  space has the text \<open>:\<close>.
\<close>

definition after_dot :: "Token list \<Rightarrow> nat \<Rightarrow> bool" where
  "after_dot ts i =
     (\<exists>p < i. \<not> is_ws (ts ! p) \<and> tok_value (ts ! p) = S ''.''
        \<and> (\<forall>j. p < j \<and> j < i \<longrightarrow> is_ws (ts ! j)))"

definition before_colon :: "Token list \<Rightarrow> nat \<Rightarrow> bool" where
  "before_colon ts i =
     (\<exists>n < length ts. i < n \<and> \<not> is_ws (ts ! n) \<and> tok_value (ts ! n) = S '':''
        \<and> (\<forall>j. i < j \<and> j < n \<longrightarrow> is_ws (ts ! j)))"














subsection \<open>The anchors and the inserted statement\<close>











section \<open>Scenario B: the Geometry pass on an entry function that reads a component\<close>





















end
